theory Spec2Isabelle
  imports Complex_Main
begin

section \<open>Python values shared by the modules\<close>

text \<open>
  The exceptions the modelled functions can raise. A function that can raise returns
  \<open>error + 'a\<close>, with \<open>Inl\<close> for the exception.
\<close>

datatype error =
    ZeroDivisionError | ValueError | AssertionError | AttributeError
  | IndexError | KeyError | NotImplementedError | OverflowError | TypeError

text \<open>
  A numpy \<open>float64\<close>: a finite value (idealised as a real, rounding is not modelled),
  an infinity or the not-a-number marker. Signed zeros are not distinguished.
\<close>

datatype float64 = Fin real | PInf | NInf | NaN

fun isnan :: "float64 \<Rightarrow> bool" where
  "isnan NaN = True"
| "isnan _ = False"

text \<open>
  Arithmetic and comparison on \<open>float64\<close>, as numpy computes them: a division by zero
  gives an infinity or not-a-number (with a warning, not an exception), not-a-number
  propagates, and every comparison with not-a-number is false.
\<close>

definition inf_of_sign :: "real \<Rightarrow> float64" where
  "inf_of_sign s = (if s > 0 then PInf else if s < 0 then NInf else NaN)"

fun fsgn :: "float64 \<Rightarrow> real" where
  "fsgn (Fin a) = sgn a"
| "fsgn PInf = 1"
| "fsgn NInf = - 1"
| "fsgn NaN = 0"

fun fneg :: "float64 \<Rightarrow> float64" where
  "fneg (Fin a) = Fin (- a)"
| "fneg PInf = NInf"
| "fneg NInf = PInf"
| "fneg NaN = NaN"

fun fadd :: "float64 \<Rightarrow> float64 \<Rightarrow> float64" where
  "fadd (Fin a) (Fin b) = Fin (a + b)"
| "fadd NaN _ = NaN"
| "fadd _ NaN = NaN"
| "fadd PInf NInf = NaN"
| "fadd NInf PInf = NaN"
| "fadd PInf _ = PInf"
| "fadd _ PInf = PInf"
| "fadd NInf _ = NInf"
| "fadd _ NInf = NInf"

definition fsub :: "float64 \<Rightarrow> float64 \<Rightarrow> float64" where
  "fsub a b = fadd a (fneg b)"

fun fmul :: "float64 \<Rightarrow> float64 \<Rightarrow> float64" where
  "fmul (Fin a) (Fin b) = Fin (a * b)"
| "fmul NaN _ = NaN"
| "fmul _ NaN = NaN"
| "fmul a b = inf_of_sign (fsgn a * fsgn b)"

fun fdiv :: "float64 \<Rightarrow> float64 \<Rightarrow> float64" where
  "fdiv (Fin a) (Fin b) = (if b = 0 then inf_of_sign a else Fin (a / b))"
| "fdiv NaN _ = NaN"
| "fdiv _ NaN = NaN"
| "fdiv (Fin a) _ = Fin 0"
| "fdiv a (Fin b) = inf_of_sign (fsgn a * (if b \<ge> 0 then 1 else - 1))"
| "fdiv _ _ = NaN"

fun fgt :: "float64 \<Rightarrow> float64 \<Rightarrow> bool" where
  "fgt (Fin a) (Fin b) = (a > b)"
| "fgt NaN _ = False"
| "fgt _ NaN = False"
| "fgt PInf PInf = False"
| "fgt PInf _ = True"
| "fgt NInf _ = False"
| "fgt (Fin a) PInf = False"
| "fgt (Fin a) NInf = True"

text \<open>
  The arithmetic of \<open>float64\<close> is a parameter of the functions that compute with
  floats whose rounding can decide a result: the four operations as the platform
  computes them, rounding included. \<open>exact\<close> is the arithmetic without rounding; the
  concrete runs below use it.
\<close>

record Arithmetic =
  f_add :: "float64 \<Rightarrow> float64 \<Rightarrow> float64"
  f_sub :: "float64 \<Rightarrow> float64 \<Rightarrow> float64"
  f_mul :: "float64 \<Rightarrow> float64 \<Rightarrow> float64"
  f_div :: "float64 \<Rightarrow> float64 \<Rightarrow> float64"

definition exact :: Arithmetic where
  "exact = \<lparr>f_add = fadd, f_sub = fsub, f_mul = fmul, f_div = fdiv\<rparr>"

text \<open>Python slicing \<open>xs[i:j]\<close> with integer bounds: a negative bound counts from the end.\<close>

definition slice_bound :: "nat \<Rightarrow> int \<Rightarrow> nat" where
  "slice_bound n i = (if i < 0 then nat (int n + i) else min n (nat i))"

definition py_slice :: "'a list \<Rightarrow> int \<Rightarrow> int \<Rightarrow> 'a list" where
  "py_slice xs i j = drop (slice_bound (length xs) i) (take (slice_bound (length xs) j) xs)"

section \<open>common.py\<close>

definition lowerClamp :: "int \<Rightarrow> int \<Rightarrow> int" where
  "lowerClamp v limit = (if v > limit then v else limit)"

definition flatten :: "'a list list \<Rightarrow> 'a list" where
  "flatten listOfLists = concat listOfLists"

text \<open>
  \<open>shiftedPairs(signal, limit)\<close>: \<open>limit\<close> defaults to \<open>len(signal) // 2\<close>, a larger one
  raises, and the generator yields one pair for each \<open>offset\<close> in \<open>range(limit)\<close>:
  \<open>(signal, signal)\<close> at offset 0, \<open>(signal[:-offset], signal[offset:])\<close> after it.
\<close>

definition shiftedPairs :: "'a list \<Rightarrow> int option \<Rightarrow> error + ('a list \<times> 'a list) list" where
  "shiftedPairs signal limit =
     (let lim = (case limit of None \<Rightarrow> int (length signal div 2) | Some l \<Rightarrow> l) in
      if lim > int (length signal div 2) then Inl ValueError
      else Inr (map (\<lambda>offset.
                  if offset = 0 then (signal, signal)
                  else (py_slice signal 0 (- int offset), drop offset signal))
                [0..<nat lim]))"

text \<open>
  \<open>numpy.corrcoef(x, y)[0][1]\<close>, the Pearson correlation coefficient of two vectors of
  the same length; where a variance is zero numpy divides zero by zero and gives
  not-a-number (with a warning, not an exception).
\<close>

definition mean_list :: "real list \<Rightarrow> real" where
  "mean_list xs = sum_list xs / real (length xs)"

definition corrcoef :: "real list \<Rightarrow> real list \<Rightarrow> float64" where
  "corrcoef xs ys =
     (let mx = mean_list xs; my = mean_list ys;
          cov = sum_list (map (\<lambda>(a, b). (a - mx) * (b - my)) (zip xs ys));
          vx = sum_list (map (\<lambda>a. (a - mx) ^ 2) xs);
          vy = sum_list (map (\<lambda>b. (b - my) ^ 2) ys)
      in if vx = 0 \<or> vy = 0 then NaN else Fin (cov / (sqrt vx * sqrt vy)))"

definition autocorrelation :: "real list \<Rightarrow> int option \<Rightarrow> error + float64 list" where
  "autocorrelation signal limit =
     (case shiftedPairs signal limit of
        Inl e \<Rightarrow> Inl e
      | Inr pairs \<Rightarrow> Inr (map (\<lambda>(a, b). corrcoef a b) pairs))"

text \<open>
  What the specification asks of the autocorrelation vector: the coefficient of the
  signal with itself shifted by \<open>k\<close>, for every \<open>k\<close> from 0 to \<open>N div 2\<close> inclusive.
\<close>

definition shifted_coefficient :: "real list \<Rightarrow> nat \<Rightarrow> float64" where
  "shifted_coefficient signal k = corrcoef (take (length signal - k) signal) (drop k signal)"

definition spec_autocorrelation :: "real list \<Rightarrow> float64 list" where
  "spec_autocorrelation signal =
     map (shifted_coefficient signal) [0..<Suc (length signal div 2)]"

section \<open>signal/extraction/viterbi.py: candidate points\<close>

text \<open>
  \<open>findContiguousRegions\<close>: one pass over the pixels of a line with the list of regions
  found so far and the start of the open region, if any. Nothing follows the loop.
\<close>

fun scanRegions :: "nat list \<Rightarrow> nat \<Rightarrow> nat option \<Rightarrow> (nat \<times> nat) list \<Rightarrow> (nat \<times> nat) list" where
  "scanRegions [] index start locations = locations"
| "scanRegions (pixel # rest) index start locations =
     (case start of
        None \<Rightarrow>
          (if pixel > 0 then scanRegions rest (Suc index) (Some index) locations
           else scanRegions rest (Suc index) None locations)
      | Some s \<Rightarrow>
          (if pixel = 0 then scanRegions rest (Suc index) None (locations @ [(s, index)])
           else scanRegions rest (Suc index) (Some s) locations))"

definition findContiguousRegions :: "nat list \<Rightarrow> (nat \<times> nat) list" where
  "findContiguousRegions oneDimImage = scanRegions oneDimImage 0 None []"

text \<open>\<open>int(np.mean([start, end]))\<close> of two non-negative integers.\<close>

definition findContiguousRegionCenters :: "nat list \<Rightarrow> nat list" where
  "findContiguousRegionCenters oneDimImage =
     map (\<lambda>(s, e). (s + e) div 2) (findContiguousRegions oneDimImage)"

text \<open>
  A point of the trace. \<open>x\<close> is always an integer in this module (a column index);
  \<open>y\<close> is an integer row for a candidate point and a float for an interpolated one.
\<close>

datatype Point = Point (px: int) (py: real)

definition index :: "Point \<Rightarrow> int" where
  "index p = px p"

text \<open>
  An image of one channel (class \<open>Image\<close> and its subclasses \<open>GrayscaleImage\<close> and
  \<open>BinaryImage\<close>): \<open>data\<close> is the array of rows of 8-bit pixels, \<open>height\<close> and
  \<open>width\<close> its shape.
\<close>

record Image =
  height :: nat
  width :: nat
  data :: "nat list list"

type_synonym BinaryImage = Image
type_synonym GrayscaleImage = Image

text \<open>\<open>np.swapaxes(image, 0, 1)\<close>: the list of columns, each read top to bottom.\<close>

definition swapaxes :: "BinaryImage \<Rightarrow> nat list list" where
  "swapaxes b = map (\<lambda>c. map (\<lambda>row. row ! c) (data b)) [0..<width b]"

definition getPointLocations :: "BinaryImage \<Rightarrow> Point list list" where
  "getPointLocations b =
     map (\<lambda>(column, pixels).
            map (\<lambda>row. Point (int column) (real row)) (findContiguousRegionCenters pixels))
         (zip [0..<width b] (swapaxes b))"

section \<open>signal/extraction/viterbi.py: the transition cost\<close>

text \<open>
  The distance and the angle are computed over the reals. The code computes them on
  floats, which agrees on pixel coordinates (the only points the extractor scores); on
  coordinates of extreme magnitude the code's squares can underflow or overflow.
\<close>

definition euclideanDistance :: "real \<Rightarrow> real \<Rightarrow> real" where
  "euclideanDistance a b = sqrt (a ^ 2 + b ^ 2)"

definition distanceBetweenPoints :: "Point \<Rightarrow> Point \<Rightarrow> real" where
  "distanceBetweenPoints firstPoint secondPoint =
     euclideanDistance (real_of_int (px firstPoint) - real_of_int (px secondPoint))
                       (py firstPoint - py secondPoint)"

text \<open>\<open>math.asin\<close> raises \<open>ValueError\<close> outside \<open>[-1, 1]\<close>.\<close>

definition asin :: "real \<Rightarrow> error + real" where
  "asin v = (if v < - 1 \<or> 1 < v then Inl ValueError else Inr (arcsin v))"

text \<open>
  \<open>asin(y / euclideanDistance(x, y)) / pi * 180\<close>: the operands are Python numbers,
  so a zero distance raises \<open>ZeroDivisionError\<close>.
\<close>

definition angleFromOffsets :: "real \<Rightarrow> real \<Rightarrow> error + real" where
  "angleFromOffsets a b =
     (let d = euclideanDistance a b in
      if d = 0 then Inl ZeroDivisionError
      else case asin (b / d) of Inl e \<Rightarrow> Inl e | Inr r \<Rightarrow> Inr (r / pi * 180))"

definition angleBetweenPoints :: "Point \<Rightarrow> Point \<Rightarrow> error + real" where
  "angleBetweenPoints firstPoint secondPoint =
     angleFromOffsets (real_of_int (px secondPoint) - real_of_int (px firstPoint))
                      (py secondPoint - py firstPoint)"

definition angleSimilarity :: "real \<Rightarrow> real \<Rightarrow> real" where
  "angleSimilarity firstAngle secondAngle = (180 - \<bar>secondAngle - firstAngle\<bar>) / 180"

definition DISTANCE_WEIGHT :: real where
  "DISTANCE_WEIGHT = 5 / 10"

definition score :: "Point \<Rightarrow> Point \<Rightarrow> real \<Rightarrow> error + real" where
  "score currentPoint candidatePoint candidateAngle =
     (case angleBetweenPoints candidatePoint currentPoint of
        Inl e \<Rightarrow> Inl e
      | Inr currentAngle \<Rightarrow>
          (let angleValue = 1 - angleSimilarity currentAngle candidateAngle;
               distanceValue = distanceBetweenPoints currentPoint candidatePoint
           in Inr (distanceValue * DISTANCE_WEIGHT + angleValue * (1 - DISTANCE_WEIGHT))))"

section \<open>signal/extraction/viterbi.py: the path search\<close>

text \<open>
  The table \<open>bestPathToPoint\<close>: for a recorded point its cumulative cost, its
  predecessor (or none) and the angle of the step into it.
\<close>

type_synonym entry = "real \<times> Point option \<times> real"
type_synonym table = "Point \<Rightarrow> entry option"

text \<open>
  The window of \<open>getAdjacent\<close>: while it holds no point and the left bound is not
  negative, the left bound moves one column to the left and the slice is taken again.
\<close>

function expandLeft :: "Point list list \<Rightarrow> int \<Rightarrow> int \<Rightarrow> Point list \<Rightarrow> Point list" where
  "expandLeft pointsByColumn leftColumnIndex rightColumnIndex result =
     (if result = [] \<and> leftColumnIndex \<ge> 0
      then expandLeft pointsByColumn (leftColumnIndex - 1) rightColumnIndex
             (flatten (py_slice pointsByColumn (leftColumnIndex - 1) rightColumnIndex))
      else result)"
  by pat_completeness auto
termination
  by (relation "measure (\<lambda>(pbc, l, r, res). nat (l + 1))") auto

declare expandLeft.simps [simp del]

text \<open>The generator's loop: the assertion, then the table entry of each point.\<close>

fun yieldRecorded :: "table \<Rightarrow> Point list \<Rightarrow> error + (real \<times> Point \<times> real) list" where
  "yieldRecorded bestPathToPoint [] = Inr []"
| "yieldRecorded bestPathToPoint (point # rest) =
     (case bestPathToPoint point of
        None \<Rightarrow> Inl AssertionError
      | Some (pointScore, _, pointAngle) \<Rightarrow>
          (case yieldRecorded bestPathToPoint rest of
             Inl e \<Rightarrow> Inl e
           | Inr further \<Rightarrow> Inr ((pointScore, point, pointAngle) # further)))"

definition adjacentWindow :: "Point list list \<Rightarrow> int \<Rightarrow> int \<Rightarrow> Point list" where
  "adjacentWindow pointsByColumn startingColumn minimumLookBack =
     (let rightColumnIndex = startingColumn;
          leftColumnIndex = lowerClamp (startingColumn - minimumLookBack) 0
      in expandLeft pointsByColumn leftColumnIndex rightColumnIndex
           (flatten (py_slice pointsByColumn leftColumnIndex rightColumnIndex)))"

definition getAdjacent ::
  "Point list list \<Rightarrow> table \<Rightarrow> int \<Rightarrow> int \<Rightarrow> error + (real \<times> Point \<times> real) list" where
  "getAdjacent pointsByColumn bestPathToPoint startingColumn minimumLookBack =
     yieldRecorded bestPathToPoint (adjacentWindow pointsByColumn startingColumn minimumLookBack)"

text \<open>\<open>min(xs, key=...)\<close>: the first element of least key; an empty list raises.\<close>

definition py_min :: "('a \<Rightarrow> real) \<Rightarrow> 'a list \<Rightarrow> error + 'a" where
  "py_min key xs =
     (case xs of
        [] \<Rightarrow> Inl ValueError
      | first # rest \<Rightarrow> Inr (foldl (\<lambda>best c. if key c < key best then c else best) first rest))"

text \<open>A \<open>for\<close> loop whose body updates a state and can raise.\<close>

fun forEach :: "('s \<Rightarrow> 'a \<Rightarrow> error + 's) \<Rightarrow> 's \<Rightarrow> 'a list \<Rightarrow> error + 's" where
  "forEach body st [] = Inr st"
| "forEach body st (a # rest) =
     (case body st a of Inl e \<Rightarrow> Inl e | Inr st' \<Rightarrow> forEach body st' rest)"

text \<open>The list comprehension of the candidate costs of a point.\<close>

fun scoreCandidates :: "Point \<Rightarrow> (real \<times> Point \<times> real) list \<Rightarrow> error + (real \<times> Point) list" where
  "scoreCandidates point [] = Inr []"
| "scoreCandidates point ((cadidateScore, candidatePoint, candidateAngle) # rest) =
     (case score point candidatePoint candidateAngle of
        Inl e \<Rightarrow> Inl e
      | Inr c \<Rightarrow>
          (case scoreCandidates point rest of
             Inl e \<Rightarrow> Inl e
           | Inr further \<Rightarrow> Inr ((c + cadidateScore, candidatePoint) # further)))"

definition minimumLookBack :: int where
  "minimumLookBack = 1"

definition OPTIMAL_ENDING_WIDTH :: int where
  "OPTIMAL_ENDING_WIDTH = 20"

text \<open>The body of the inner loop that builds the table.\<close>

definition recordPoint :: "Point list list \<Rightarrow> table \<Rightarrow> Point \<Rightarrow> error + table" where
  "recordPoint pointsByColumn bestPathToPoint point =
     (case getAdjacent pointsByColumn bestPathToPoint (index point) minimumLookBack of
        Inl e \<Rightarrow> Inl e
      | Inr adjacent \<Rightarrow>
          if adjacent = [] then Inr (bestPathToPoint(point \<mapsto> (0, None, 0)))
          else
            (case scoreCandidates point adjacent of
               Inl e \<Rightarrow> Inl e
             | Inr scored \<Rightarrow>
                 (case py_min fst scored of
                    Inl e \<Rightarrow> Inl e
                  | Inr (bestScore, bestPoint) \<Rightarrow>
                      (case angleBetweenPoints bestPoint point of
                         Inl e \<Rightarrow> Inl e
                       | Inr a \<Rightarrow> Inr (bestPathToPoint(point \<mapsto> (bestScore, Some bestPoint, a)))))))"

text \<open>
  The table after both loops: the points of the first column are seeded, the other
  columns are recorded from left to right.
\<close>

definition seedTable :: "Point list list \<Rightarrow> table" where
  "seedTable pointsByColumn =
     foldl (\<lambda>t column. foldl (\<lambda>t' point. t'(point \<mapsto> (0, None, 0))) t column)
           Map.empty (take 1 pointsByColumn)"

definition buildTable :: "Point list list \<Rightarrow> error + table" where
  "buildTable pointsByColumn =
     forEach (\<lambda>t column. forEach (recordPoint pointsByColumn) t column)
             (seedTable pointsByColumn) (drop 1 pointsByColumn)"

text \<open>
  The walk back along the predecessors. A table with a cycle would keep it running, so
  the result is an option: \<open>None\<close> is "does not return".
\<close>

partial_function (option) traceBack :: "table \<Rightarrow> Point option \<Rightarrow> Point list \<Rightarrow> (error + Point list) option" where
  "traceBack bestPathToPoint current bestPath =
     (case current of
        None \<Rightarrow> Some (Inr bestPath)
      | Some p \<Rightarrow>
          (case bestPathToPoint p of
             None \<Rightarrow> Some (Inl KeyError)
           | Some (_, previous, _) \<Rightarrow> traceBack bestPathToPoint previous (bestPath @ [p])))"

text \<open>
  The best path of an image that has candidate points: the table, the choice of the end
  point among the candidates of the last columns, the walk back. The path runs from the
  end point to the left.
\<close>

definition bestPathOf :: "Point list list \<Rightarrow> int \<Rightarrow> (error + Point list) option" where
  "bestPathOf pointsByColumn imageWidth =
     (case buildTable pointsByColumn of
        Inl e \<Rightarrow> Some (Inl e)
      | Inr bestPathToPoint \<Rightarrow>
          (case getAdjacent pointsByColumn bestPathToPoint imageWidth OPTIMAL_ENDING_WIDTH of
             Inl e \<Rightarrow> Some (Inl e)
           | Inr optimalCandidates \<Rightarrow>
               (case py_min fst (map (\<lambda>(totalScore, point, _). (totalScore, point)) optimalCandidates) of
                  Inl e \<Rightarrow> Some (Inl e)
                | Inr (_, current) \<Rightarrow> traceBack bestPathToPoint (Some current) [])))"

section \<open>signal/extraction/viterbi.py: from the path to the signal\<close>

text \<open>Indexing a numpy array with an integer: a negative index counts from the end.\<close>

definition np_index :: "'a list \<Rightarrow> int \<Rightarrow> error + nat" where
  "np_index arr i =
     (let n = int (length arr); j = (if i < 0 then n + i else i) in
      if 0 \<le> j \<and> j < n then Inr (nat j) else Inl IndexError)"

definition np_get :: "'a list \<Rightarrow> int \<Rightarrow> error + 'a" where
  "np_get arr i = (case np_index arr i of Inl e \<Rightarrow> Inl e | Inr j \<Rightarrow> Inr (arr ! j))"

definition np_set :: "'a list \<Rightarrow> int \<Rightarrow> 'a \<Rightarrow> error + 'a list" where
  "np_set arr i v = (case np_index arr i of Inl e \<Rightarrow> Inl e | Inr j \<Rightarrow> Inr (arr[j := v]))"

definition np_full :: "int \<Rightarrow> 'a \<Rightarrow> error + 'a list" where
  "np_full n v = (if n < 0 then Inl ValueError else Inr (replicate (nat n) v))"

text \<open>
  \<open>interpolate\<close>: the slope is computed first (equal columns raise), then one point
  for each column strictly between the two.
\<close>

definition interpolate :: "Point \<Rightarrow> Point \<Rightarrow> error + Point list" where
  "interpolate fromPoint toPoint =
     (if px toPoint - px fromPoint = 0 then Inl ZeroDivisionError
      else
        (let slope = (py toPoint - py fromPoint) / real_of_int (px toPoint - px fromPoint) in
         Inr (map (\<lambda>c. Point c (slope * real_of_int (c - px toPoint) + py toPoint))
                  [index fromPoint + 1..index toPoint - 1])))"

definition writePoint :: "float64 list \<Rightarrow> Point \<Rightarrow> error + float64 list" where
  "writePoint signal p = np_set signal (index p) (Fin (py p))"

text \<open>The body of the loop over \<open>points[1:]\<close>; the state is the array and the prior point.\<close>

definition emitPoint :: "float64 list \<times> Point \<Rightarrow> Point \<Rightarrow> error + float64 list \<times> Point" where
  "emitPoint st point =
     (case st of (signal, priorPoint) \<Rightarrow>
        (case np_get signal (index point + 1) of
           Inl e \<Rightarrow> Inl e
         | Inr v \<Rightarrow>
             (case (if isnan v
                    then (case interpolate point priorPoint of
                            Inl e \<Rightarrow> Inl e
                          | Inr between \<Rightarrow> forEach writePoint signal between)
                    else Inr signal) of
                Inl e \<Rightarrow> Inl e
              | Inr signal' \<Rightarrow>
                  (case writePoint signal' point of
                     Inl e \<Rightarrow> Inl e
                   | Inr signal'' \<Rightarrow> Inr (signal'', point)))))"

text \<open>
  \<open>convertPointsToSignal(points, width)\<close>: \<open>width or (firstPoint.x + 1)\<close> takes the
  second operand when \<open>width\<close> is \<open>None\<close> or 0.
\<close>

definition convertPointsToSignal :: "Point list \<Rightarrow> int option \<Rightarrow> error + float64 list" where
  "convertPointsToSignal points widthArg =
     (case points of
        [] \<Rightarrow> Inl AssertionError
      | firstPoint # others \<Rightarrow>
          (let arraySize = (case widthArg of
                              None \<Rightarrow> px firstPoint + 1
                            | Some w \<Rightarrow> if w = 0 then px firstPoint + 1 else w) in
           case np_full arraySize NaN of
             Inl e \<Rightarrow> Inl e
           | Inr signal0 \<Rightarrow>
               (case writePoint signal0 firstPoint of
                  Inl e \<Rightarrow> Inl e
                | Inr signal1 \<Rightarrow>
                    (case forEach emitPoint (signal1, firstPoint) others of
                       Inl e \<Rightarrow> Inl e
                     | Inr (signal, _) \<Rightarrow> Inr signal))))"

text \<open>
  \<open>extractSignal\<close>: \<open>None\<close> when the image has no candidate point, otherwise the
  signal of the best path, converted without a width. The outer option is \<open>None\<close>
  when the call does not return.
\<close>

definition extractSignal :: "BinaryImage \<Rightarrow> (error + float64 list option) option" where
  "extractSignal binary =
     (let pointsByColumn = getPointLocations binary;
          points = flatten pointsByColumn
      in if points = [] then Some (Inr None)
         else
           (case bestPathOf pointsByColumn (int (width binary)) of
              None \<Rightarrow> None
            | Some (Inl e) \<Rightarrow> Some (Inl e)
            | Some (Inr bestPath) \<Rightarrow>
                (case convertPointsToSignal bestPath None of
                   Inl e \<Rightarrow> Some (Inl e)
                 | Inr signal \<Rightarrow> Some (Inr (Some signal)))))"

section \<open>Invariants of the path search\<close>

text \<open>
  Every candidate of column \<open>i\<close> has \<open>x = i\<close>; a recorded predecessor is itself recorded
  and lies strictly to the left; a path runs strictly leftwards over non-negative columns;
  a recorded point with nothing to its left carries the seed entry; during emission the
  array is not-a-number exactly to the left of the prior point.
\<close>

definition columnsIndexed :: "Point list list \<Rightarrow> bool" where
  "columnsIndexed pbc \<longleftrightarrow> (\<forall>i < length pbc. \<forall>p \<in> set (pbc ! i). px p = int i)"

definition tableLinked :: "table \<Rightarrow> bool" where
  "tableLinked t \<longleftrightarrow> (\<forall>p s q a. t p = Some (s, Some q, a) \<longrightarrow> q \<in> dom t \<and> px q < px p)"

definition descending :: "Point list \<Rightarrow> bool" where
  "descending ps \<longleftrightarrow> sorted_wrt (\<lambda>a b. px b < px a) ps \<and> (\<forall>p \<in> set ps. 0 \<le> px p)"

definition seeded :: "Point list list \<Rightarrow> table \<Rightarrow> bool" where
  "seeded pbc t \<longleftrightarrow>
     (\<forall>p \<in> dom t. concat (take (nat (px p)) pbc) = [] \<longrightarrow> t p = Some (0, None, 0))"

definition tableInv :: "Point list list \<Rightarrow> table \<Rightarrow> bool" where
  "tableInv pbc t \<longleftrightarrow> dom t \<subseteq> set (concat pbc) \<and> tableLinked t \<and> seeded pbc t"

definition emitted :: "float64 list \<Rightarrow> Point \<Rightarrow> nat \<Rightarrow> bool" where
  "emitted signal priorPoint n \<longleftrightarrow>
     length signal = n \<and> 0 \<le> px priorPoint \<and> nat (px priorPoint) < n
     \<and> (\<forall>i < n. isnan (signal ! i) \<longleftrightarrow> i < nat (px priorPoint))"

section \<open>otsu.py\<close>

text \<open>
  \<open>np.histogram(data, 255, range=(0, 255))\<close>: 255 bins of width 1 over \<open>[0, 255]\<close>,
  the last one closed, so that the values 254 and 255 share bin 254.
\<close>

definition histogram :: "GrayscaleImage \<Rightarrow> nat list" where
  "histogram gray =
     map (\<lambda>bin. length (filter (\<lambda>v. min v 254 = bin) (concat (data gray)))) [0..<255]"

text \<open>The built-in \<open>sum\<close>, which starts from the integer 0.\<close>

definition py_sum :: "Arithmetic \<Rightarrow> float64 list \<Rightarrow> float64" where
  "py_sum ops xs = foldl (f_add ops) (Fin 0) xs"

text \<open>
  The closures of \<open>otsuThreshold\<close>, with the arithmetic and the image as parameters:
  \<open>p = n / N\<close>,
  \<open>\<omega>(k) = sum(p[0:k])\<close>, \<open>\<mu>(k)\<close> the sum of \<open>(i + 1) * p_i\<close> over \<open>p[0:k]\<close>, and
  \<open>\<sigma>_B(k)\<close> the quotient whose denominator is zero when one class is empty; the square
  \<open>** 2\<close> of its numerator is the product of the difference with itself.
\<close>

definition probabilities :: "Arithmetic \<Rightarrow> GrayscaleImage \<Rightarrow> float64 list" where
  "probabilities ops gray =
     (let N = height gray * width gray; n = histogram gray
      in map (\<lambda>c. f_div ops (Fin (real c)) (Fin (real N))) n)"

definition omega :: "Arithmetic \<Rightarrow> GrayscaleImage \<Rightarrow> int \<Rightarrow> float64" where
  "omega ops gray k = py_sum ops (py_slice (probabilities ops gray) 0 k)"

definition mu :: "Arithmetic \<Rightarrow> GrayscaleImage \<Rightarrow> int \<Rightarrow> float64" where
  "mu ops gray k =
     py_sum ops (map (\<lambda>(i, p_i). f_mul ops (Fin (real (i + 1))) p_i)
                     (enumerate 0 (py_slice (probabilities ops gray) 0 k)))"

definition sigma_B :: "Arithmetic \<Rightarrow> GrayscaleImage \<Rightarrow> int \<Rightarrow> float64" where
  "sigma_B ops gray k =
     (let mu_T = mu ops gray 256;
          d = f_sub ops (f_mul ops mu_T (omega ops gray k)) (mu ops gray k);
          numerator = f_mul ops d d;
          denominator = f_mul ops (omega ops gray k) (f_sub ops (Fin 1) (omega ops gray k))
      in f_div ops numerator denominator)"

text \<open>
  The loop of \<open>climb1dHill\<close>. The cache only avoids evaluating a position twice and
  \<open>evaluate\<close> is a pure function here, so the model calls it directly. A position with
  no left or no right neighbour raises; a strictly better left neighbour is taken before
  a strictly better right one.
\<close>

function climb :: "int list \<Rightarrow> (int \<Rightarrow> float64) \<Rightarrow> nat \<Rightarrow> float64 \<Rightarrow> error + int" where
  "climb xs evaluate currentIndex currentScore =
     (if \<not> (currentIndex > 0) \<or> \<not> (int currentIndex < int (length xs) - 1)
      then Inl NotImplementedError
      else
        (let leftScore = evaluate (xs ! (currentIndex - 1));
             rightScore = evaluate (xs ! (currentIndex + 1))
         in if fgt leftScore currentScore then climb xs evaluate (currentIndex - 1) leftScore
            else if fgt rightScore currentScore then climb xs evaluate (currentIndex + 1) rightScore
            else Inr (xs ! currentIndex)))"
  by pat_completeness auto

termination climb
proof -
  have irrefl: "\<not> fgt a a" for a
    by (cases a) auto
  have trans: "fgt a b \<Longrightarrow> fgt b c \<Longrightarrow> fgt a c" for a b c
    by (cases a; cases b; cases c) auto
  have step: "card {i. i < length xs \<and> fgt (ev (xs ! i)) (ev (xs ! j))}
              < card {i. i < length xs \<and> fgt (ev (xs ! i)) s}"
    if "j < length xs" "fgt (ev (xs ! j)) s" for xs :: "int list" and ev j s
  proof (rule psubset_card_mono)
    show "finite {i. i < length xs \<and> fgt (ev (xs ! i)) s}" by simp
    have "j \<in> {i. i < length xs \<and> fgt (ev (xs ! i)) s}" using that by simp
    moreover have "j \<notin> {i. i < length xs \<and> fgt (ev (xs ! i)) (ev (xs ! j))}"
      by (simp add: irrefl)
    moreover have "{i. i < length xs \<and> fgt (ev (xs ! i)) (ev (xs ! j))}
                   \<subseteq> {i. i < length xs \<and> fgt (ev (xs ! i)) s}"
      using that(2) trans by blast
    ultimately show "{i. i < length xs \<and> fgt (ev (xs ! i)) (ev (xs ! j))}
                     \<subset> {i. i < length xs \<and> fgt (ev (xs ! i)) s}" by blast
  qed
  show ?thesis
  proof (relation "measure (\<lambda>(xs, ev, i, s). card {j. j < length xs \<and> fgt (ev (xs ! j)) s})",
         goal_cases)
    case 1
    then show ?case by simp
  next
    case (2 xs evaluate currentIndex currentScore leftScore rightScore)
    then have "currentIndex - 1 < length xs" by auto
    from step [OF this, of evaluate currentScore] 2 show ?case by simp
  next
    case (3 xs evaluate currentIndex currentScore leftScore rightScore)
    then have "currentIndex + 1 < length xs" by auto
    from step [OF this, of evaluate currentScore] 3 show ?case by simp
  qed
qed

declare climb.simps [simp del]

definition climb1dHill :: "int list \<Rightarrow> (int \<Rightarrow> float64) \<Rightarrow> error + int" where
  "climb1dHill xs evaluate =
     (let startIndex = length xs div 2 in
      if \<not> startIndex < length xs then Inl IndexError
      else climb xs evaluate startIndex (evaluate (xs ! startIndex)))"

definition otsuThreshold :: "Arithmetic \<Rightarrow> GrayscaleImage \<Rightarrow> error + int" where
  "otsuThreshold ops gray = climb1dHill (map int [0..<256]) (sigma_B ops gray)"

text \<open>
  The shape of a numpy array: \<open>height\<close> rows of \<open>width\<close> pixels each. An image
  built from an array always has it.
\<close>

definition coherent :: "Image \<Rightarrow> bool" where
  "coherent im \<longleftrightarrow>
     length (data im) = height im \<and> (\<forall>row \<in> set (data im). length row = width im)"

text \<open>
  The words of the specification: the number of modes of a histogram (the peaks of the
  counts, a run of equal counts being one value, with nothing outside the bins), and the
  exhaustive argmax of \<open>\<sigma>_B\<close> over \<open>[0, 255]\<close>, a \<open>k\<close> that no other position beats.
\<close>

fun countPeaks :: "nat list \<Rightarrow> nat" where
  "countPeaks (a # b # c # rest) =
     (if a < b \<and> c < b then 1 else 0) + countPeaks (b # c # rest)"
| "countPeaks _ = 0"

definition modeCount :: "nat list \<Rightarrow> nat" where
  "modeCount hist = countPeaks (remdups_adj (0 # hist @ [0]))"

definition isExhaustiveArgmax :: "Arithmetic \<Rightarrow> GrayscaleImage \<Rightarrow> int \<Rightarrow> bool" where
  "isExhaustiveArgmax ops gray k \<longleftrightarrow>
     0 \<le> k \<and> k \<le> 255
     \<and> (\<forall>j \<in> {0..255}. \<not> fgt (sigma_B ops gray j) (sigma_B ops gray k))"

text \<open>
  An image of 37 pixels with a bimodal histogram: 18 pixels of value 125, 18 of value
  126 and one of value 129.
\<close>

definition twoHumps :: GrayscaleImage where
  "twoHumps = \<lparr>height = 1, width = 37, data = [replicate 18 125 @ replicate 18 126 @ [129]]\<rparr>"

section \<open>Conversion.py\<close>

text \<open>
  The twelve lead names of \<open>model/Lead.py\<close> (prefixed, since \<open>I\<close> and \<open>V1\<close> would
  capture variable names), a lead's region of interest with its start time, and the
  input parameters; the dictionary of leads is the list of its items in insertion order.
\<close>

datatype LeadId =
    Lead_I | Lead_II | Lead_III | Lead_aVR | Lead_aVL | Lead_aVF
  | Lead_V1 | Lead_V2 | Lead_V3 | Lead_V4 | Lead_V5 | Lead_V6

datatype Lead = Lead (leadX: int) (leadY: int) (leadWidth: int) (leadHeight: int) (startTime: real)

datatype Rectangle = Rectangle int int int int

record InputParameters =
  rotation :: real
  timeScale :: real
  voltScale :: real
  leads :: "(LeadId \<times> Lead) list"

text \<open>
  What \<open>digitizeSignal\<close> can hand back: its annotation promises an array or a
  \<open>Failure\<close>, and \<open>extractSignal\<close> returns \<open>None\<close> when it finds no candidate point.
  \<open>digitizeGrid\<close> returns a spacing or a \<open>Failure\<close> with its reason.
\<close>

datatype SignalResult = Signal "float64 list" | NoSignal | SignalFailure string

datatype GridResult = Spacing float64 | GridFailure string

text \<open>
  The operations built on OpenCV, numpy and scipy are parameters of the model: rotation,
  cropping, the adaptive signal detection, the grid digitisation and the drawing of the
  preview, each of which returns or raises, \<open>numpy.mean\<close> (behind \<open>common.mean\<close>), and the
  arithmetic of the floats, rounding included. \<open>'img\<close> is the colour image type.
\<close>

record 'img Vision =
  rotated :: "'img \<Rightarrow> real \<Rightarrow> error + 'img"
  cropped :: "'img \<Rightarrow> Rectangle \<Rightarrow> error + 'img"
  adaptive :: "'img \<Rightarrow> error + BinaryImage"
  digitizeGrid :: "'img \<Rightarrow> error + GridResult"
  overlaySignalOnImage :: "float64 list \<Rightarrow> 'img \<Rightarrow> error + 'img"
  mean :: "float64 list \<Rightarrow> float64"
  arithmetic :: Arithmetic

text \<open>
  The outcome of a call that may not return (\<open>None\<close>), raise or return a value, and
  the sequencing of such calls.
\<close>

type_synonym 'a result = "(error + 'a) option"

definition andThen :: "'a result \<Rightarrow> ('a \<Rightarrow> 'b result) \<Rightarrow> 'b result" where
  "andThen m f = (case m of None \<Rightarrow> None | Some (Inl e) \<Rightarrow> Some (Inl e) | Some (Inr v) \<Rightarrow> f v)"

definition returns :: "'a \<Rightarrow> 'a result" where
  "returns v = Some (Inr v)"

definition raises :: "error \<Rightarrow> 'a result" where
  "raises e = Some (Inl e)"

text \<open>A dictionary comprehension over the items of a dictionary, in order.\<close>

fun mapItems :: "('k \<Rightarrow> 'a \<Rightarrow> 'b result) \<Rightarrow> ('k \<times> 'a) list \<Rightarrow> ('k \<times> 'b) list result" where
  "mapItems f [] = returns []"
| "mapItems f ((k, a) # rest) =
     andThen (f k a) (\<lambda>b. andThen (mapItems f rest) (\<lambda>bs. returns ((k, b) # bs)))"

text \<open>
  \<open>int(v)\<close> of a \<open>float64\<close>: truncation towards zero; an infinity raises
  \<open>OverflowError\<close> and not-a-number raises \<open>ValueError\<close>.
\<close>

definition py_int :: "float64 \<Rightarrow> error + int" where
  "py_int v =
     (case v of
        Fin a \<Rightarrow> Inr (if a \<ge> 0 then \<lfloor>a\<rfloor> else \<lceil>a\<rceil>)
      | PInf \<Rightarrow> Inl OverflowError
      | NInf \<Rightarrow> Inl OverflowError
      | NaN \<Rightarrow> Inl ValueError)"

text \<open>\<open>numpy.mean\<close> of a list of floats, in exact arithmetic.\<close>

definition np_mean :: "float64 list \<Rightarrow> float64" where
  "np_mean xs = fdiv (foldl fadd (Fin 0) xs) (Fin (real (length xs)))"

text \<open>
  \<open>common.mode\<close>: \<open>Counter(data).most_common(1)[0]\<close>, the first value of highest
  count. Not-a-number is equal to nothing, so every not-a-number sample is a key of its
  own with count 1. An empty collection raises \<open>IndexError\<close>.
\<close>

definition countOf :: "float64 list \<Rightarrow> float64 \<Rightarrow> nat" where
  "countOf xs v = (if isnan v then 1 else length (filter (\<lambda>u. u = v) xs))"

definition mode :: "float64 list \<Rightarrow> error + float64" where
  "mode xs =
     (case xs of
        [] \<Rightarrow> Inl IndexError
      | first # rest \<Rightarrow>
          Inr (foldl (\<lambda>best c. if countOf xs c > countOf xs best then c else best) first rest))"

text \<open>\<open>np.pad\<close> with a constant; a negative count raises \<open>ValueError\<close>.\<close>

definition padLeft :: "float64 list \<Rightarrow> int \<Rightarrow> float64 \<Rightarrow> error + float64 list" where
  "padLeft elements count fillValue =
     (if count < 0 then Inl ValueError else Inr (replicate (nat count) fillValue @ elements))"

definition padRight :: "float64 list \<Rightarrow> int \<Rightarrow> float64 \<Rightarrow> error + float64 list" where
  "padRight elements count fillValue =
     (if count < 0 then Inl ValueError else Inr (elements @ replicate (nat count) fillValue))"

text \<open>
  \<open>signal/signal.py\<close>, with the arithmetic as a parameter. The scales are Python numbers,
  so a zero scale raises \<open>ZeroDivisionError\<close>; the grid size is a \<open>float64\<close>, so a zero
  grid size gives an infinity.
\<close>

definition zeroECGSignal :: "Arithmetic \<Rightarrow> float64 list \<Rightarrow> error + float64 list" where
  "zeroECGSignal ops signal =
     (case mode signal of
        Inl e \<Rightarrow> Inl e
      | Inr zeroPoint \<Rightarrow> Inr (map (\<lambda>v. f_sub ops v zeroPoint) signal))"

definition verticallyScaleECGSignal ::
  "Arithmetic \<Rightarrow> float64 list \<Rightarrow> float64 \<Rightarrow> real \<Rightarrow> real \<Rightarrow> error + float64 list" where
  "verticallyScaleECGSignal ops signal gridSizeInPixels millimetersPerMilliVolt
       gridSizeInMillimeters =
     (let gridsPerPixel = f_div ops (Fin 1) gridSizeInPixels;
          millimetersPerGrid = Fin gridSizeInMillimeters in
      if millimetersPerMilliVolt = 0 then Inl ZeroDivisionError
      else
        (let milliVoltsPerMillimeter = f_div ops (Fin 1) (Fin millimetersPerMilliVolt);
             microVoltsPerMilliVolt = Fin 1000;
             microVoltsPerPixel =
               f_mul ops (f_mul ops (f_mul ops gridsPerPixel millimetersPerGrid)
                                    milliVoltsPerMillimeter) microVoltsPerMilliVolt
         in Inr (map (\<lambda>v. f_mul ops (f_mul ops v microVoltsPerPixel) (Fin (- 1))) signal)))"

definition ecgSignalSamplingPeriod ::
  "Arithmetic \<Rightarrow> float64 \<Rightarrow> real \<Rightarrow> real \<Rightarrow> error + float64" where
  "ecgSignalSamplingPeriod ops gridSizeInPixels millimetersPerSecond gridSizeInMillimeters =
     (let gridsPerPixel = f_div ops (Fin 1) gridSizeInPixels;
          millimetersPerGrid = Fin gridSizeInMillimeters in
      if millimetersPerSecond = 0 then Inl ZeroDivisionError
      else
        (let secondsPerMillimeter = f_div ops (Fin 1) (Fin millimetersPerSecond)
         in Inr (f_mul ops (f_mul ops gridsPerPixel millimetersPerGrid) secondsPerMillimeter)))"

text \<open>
  \<open>ecgdigitize.digitizeSignal\<close> with the default methods: the adaptive detection, then
  the Viterbi extraction, whose \<open>None\<close> is passed on as it is.
\<close>

definition digitizeSignal :: "'img Vision \<Rightarrow> 'img \<Rightarrow> SignalResult result" where
  "digitizeSignal V colorImage =
     andThen (Some (adaptive V colorImage)) (\<lambda>binary.
       case extractSignal binary of
         None \<Rightarrow> None
       | Some (Inl e) \<Rightarrow> raises e
       | Some (Inr None) \<Rightarrow> returns NoSignal
       | Some (Inr (Some signal)) \<Rightarrow> returns (Signal signal))"

text \<open>\<open>isinstance(signal, common.Failure)\<close>.\<close>

fun isFailure :: "SignalResult \<Rightarrow> bool" where
  "isFailure (SignalFailure _) = True"
| "isFailure _ = False"

text \<open>
  \<open>overlaySignalOnImage(signal, image)\<close> starts with \<open>signal.shape\<close>, which only an array
  has: \<open>None\<close> and a \<open>Failure\<close> raise \<open>AttributeError\<close>.
\<close>

definition overlayPreview :: "'img Vision \<Rightarrow> SignalResult \<Rightarrow> 'img \<Rightarrow> 'img result" where
  "overlayPreview V signal colorImage =
     (case signal of
        Signal s \<Rightarrow> Some (overlaySignalOnImage V s colorImage)
      | _ \<Rightarrow> raises AttributeError)"

text \<open>
  One entry of \<open>scaledSignals\<close>: \<open>zeroECGSignal\<close>, then \<open>verticallyScaleECGSignal\<close> with
  a grid of 1 mm. \<open>Counter(None)\<close> is empty, so \<open>None\<close> raises \<open>IndexError\<close>; a
  \<open>Failure\<close> is not iterable and raises \<open>TypeError\<close>.
\<close>

definition scaleSignal ::
  "Arithmetic \<Rightarrow> SignalResult \<Rightarrow> float64 \<Rightarrow> real \<Rightarrow> float64 list result" where
  "scaleSignal ops signal gridHeightInPixels millimetersPerMilliVolt =
     (case signal of
        Signal s \<Rightarrow>
          andThen (Some (zeroECGSignal ops s)) (\<lambda>zeroed.
            Some (verticallyScaleECGSignal ops zeroed gridHeightInPixels
                    millimetersPerMilliVolt 1))
      | NoSignal \<Rightarrow> raises IndexError
      | SignalFailure _ \<Rightarrow> raises TypeError)"

text \<open>
  One entry of \<open>paddedSignals\<close>: the count is
  \<open>int(parameters.leads[leadId].startTime / samplingPeriod)\<close>, the float quotient of a
  division by a \<open>float64\<close>, truncated.
\<close>

definition leftPadCount :: "Arithmetic \<Rightarrow> real \<Rightarrow> float64 \<Rightarrow> error + int" where
  "leftPadCount ops start samplingPeriod = py_int (f_div ops (Fin start) samplingPeriod)"

definition padLead ::
  "Arithmetic \<Rightarrow> (LeadId \<times> Lead) list \<Rightarrow> float64 \<Rightarrow> LeadId \<Rightarrow> float64 list
   \<Rightarrow> float64 list result" where
  "padLead ops leadMap samplingPeriod leadId signal =
     (case map_of leadMap leadId of
        None \<Rightarrow> raises KeyError
      | Some lead \<Rightarrow>
          andThen (Some (leftPadCount ops (startTime lead) samplingPeriod)) (\<lambda>count.
            Some (padLeft signal count (Fin 0))))"

text \<open>\<open>max\<close> of the lengths; an empty sequence raises \<open>ValueError\<close>.\<close>

definition py_max :: "nat list \<Rightarrow> error + nat" where
  "py_max xs = (case xs of [] \<Rightarrow> Inl ValueError | first # rest \<Rightarrow> Inr (foldl max first rest))"

text \<open>The grid spacings that are not a \<open>Failure\<close>.\<close>

definition validSpacings :: "('k \<times> GridResult) list \<Rightarrow> float64 list" where
  "validSpacings gridSpacings =
     concat (map (\<lambda>(leadId, g). case g of Spacing s \<Rightarrow> [s] | GridFailure _ \<Rightarrow> [])
                 gridSpacings)"

text \<open>
  \<open>convertECGLeads\<close>. It returns the pair \<open>(None, None)\<close> or the pair of the aligned
  signals and the previews, both keyed by lead.
\<close>

definition convertECGLeads ::
  "'img Vision \<Rightarrow> 'img \<Rightarrow> InputParameters
   \<Rightarrow> ((LeadId \<times> float64 list) list option \<times> (LeadId \<times> 'img) list option) result" where
  "convertECGLeads V inputImage parameters =
     andThen (Some (rotated V inputImage (rotation parameters))) (\<lambda>rotatedImage.
     andThen (mapItems (\<lambda>leadId lead.
                Some (cropped V rotatedImage
                  (Rectangle (leadX lead) (leadY lead) (leadWidth lead) (leadHeight lead))))
              (leads parameters)) (\<lambda>leadImages.
     andThen (mapItems (\<lambda>leadId. digitizeSignal V) leadImages) (\<lambda>signals.
     if list_all isFailure (map snd signals) then returns (None, None)
     else
     andThen (mapItems (\<lambda>leadId (colorImage, signal). overlayPreview V signal colorImage)
              (map (\<lambda>((leadId, colorImage), (_, signal)). (leadId, (colorImage, signal)))
                   (zip leadImages signals))) (\<lambda>previews.
     andThen (mapItems (\<lambda>leadId colorImage. Some (digitizeGrid V colorImage)) leadImages)
       (\<lambda>gridSpacings.
     let spacings = validSpacings gridSpacings in
     if length spacings = 0 then returns (None, None)
     else
     let gridHeightInPixels = mean V spacings; samplingPeriodInPixels = gridHeightInPixels in
     andThen (mapItems (\<lambda>leadId signal.
                scaleSignal (arithmetic V) signal gridHeightInPixels (voltScale parameters))
              signals)
       (\<lambda>scaledSignals.
     andThen (Some (ecgSignalSamplingPeriod (arithmetic V) samplingPeriodInPixels
                      (timeScale parameters) 1))
       (\<lambda>samplingPeriod.
     andThen (mapItems (padLead (arithmetic V) (leads parameters) samplingPeriod) scaledSignals)
       (\<lambda>paddedSignals.
     andThen (Some (py_max (map (\<lambda>(leadId, s). length s) paddedSignals))) (\<lambda>maxLength.
     andThen (mapItems (\<lambda>leadId signal.
                Some (padRight signal (int maxLength - int (length signal)) (Fin 0)))
              paddedSignals) (\<lambda>fullSignals.
     returns (Some fullSignals, Some previews)))))))))))"


text \<open>
  A small instance: three one-column masks (a trace at the top, a trace in the middle, no
  trace), collaborators that identify a crop with the \<open>x\<close> of its rectangle and detect
  the mask of that number, with the grid result as a parameter and exact arithmetic, and
  two leads at the standard scales.
\<close>

definition maskTop :: BinaryImage where
  "maskTop = \<lparr>height = 2, width = 1, data = [[1], [0]]\<rparr>"

definition maskMiddle :: BinaryImage where
  "maskMiddle = \<lparr>height = 3, width = 1, data = [[0], [1], [0]]\<rparr>"

definition maskBlank :: BinaryImage where
  "maskBlank = \<lparr>height = 2, width = 1, data = [[0], [0]]\<rparr>"

definition sampleVision :: "GridResult \<Rightarrow> nat Vision" where
  "sampleVision grid =
     \<lparr>rotated = (\<lambda>colorImage angle. Inr colorImage),
      cropped = (\<lambda>colorImage rect. case rect of Rectangle x y w h \<Rightarrow> Inr (nat x)),
      adaptive = (\<lambda>crop.
        Inr (if crop = 0 then maskTop else if crop = 1 then maskMiddle else maskBlank)),
      digitizeGrid = (\<lambda>crop. Inr grid),
      overlaySignalOnImage = (\<lambda>signal colorImage. Inr colorImage),
      mean = np_mean,
      arithmetic = exact\<rparr>"

definition twoLeads :: "int \<Rightarrow> int \<Rightarrow> real \<Rightarrow> InputParameters" where
  "twoLeads firstX secondX start =
     \<lparr>rotation = 0, timeScale = 25, voltScale = 10,
      leads = [(Lead_I, Lead firstX 0 1 3 0), (Lead_II, Lead secondX 0 1 3 start)]\<rparr>"

section \<open>Autocorrelation shifts\<close>

lemma py_slice_drop_last:
  "0 < k \<Longrightarrow> k \<le> length xs \<Longrightarrow> py_slice xs 0 (- int k) = take (length xs - k) xs"
  by (auto simp: py_slice_def slice_bound_def nat_diff_distrib')

lemma shiftedPairs_default:
  "shiftedPairs signal None =
     Inr (map (\<lambda>k. (take (length signal - k) signal, drop k signal)) [0..<length signal div 2])"
proof -
  have "(if k = 0 then (signal, signal) else (py_slice signal 0 (- int k), drop k signal))
        = (take (length signal - k) signal, drop k signal)"
    if "k \<in> set [0..<length signal div 2]" for k
  proof (cases "k = 0")
    case True
    then show ?thesis by simp
  next
    case False
    moreover from that have "k \<le> length signal" by auto
    ultimately show ?thesis by (simp add: py_slice_drop_last)
  qed
  then show ?thesis
    by (simp add: shiftedPairs_def cong: map_cong)
qed

text \<open>
  C8 (as the code has it). With the default limit the autocorrelation vector holds the
  coefficient of the signal with itself shifted by \<open>k\<close> for \<open>k = 0, ..., N div 2 - 1\<close>:
  it has \<open>N div 2\<close> entries, and the shift \<open>N div 2\<close> itself is not computed.
\<close>

theorem autocorrelation_shifts:
  "autocorrelation signal None
     = Inr (map (shifted_coefficient signal) [0..<length signal div 2])
   \<and> map_sum id length (autocorrelation signal None) = Inr (length signal div 2)"
  by (simp add: autocorrelation_def shiftedPairs_default shifted_coefficient_def comp_def)

text \<open>
  C8 as stated fails: for a projection of length 4 the vector has 2 entries, not the
  3 entries for the shifts 0, 1 and 2.
\<close>

theorem autocorrelation_shifts_counterexample:
  "autocorrelation [1, 2, 3, 4] None \<noteq> Inr (spec_autocorrelation [1, 2, 3, 4])
   \<and> map_sum id length (autocorrelation [1, 2, 3, 4] None) = Inr 2
   \<and> length (spec_autocorrelation [1, 2, 3, 4]) = 3"
proof -
  have a: "map_sum id length (autocorrelation [1, 2, 3, 4] None) = Inr 2"
    by (simp add: autocorrelation_def shiftedPairs_default)
  have b: "length (spec_autocorrelation [1, 2, 3, 4]) = 3"
    by (simp add: spec_autocorrelation_def)
  from a b have "autocorrelation [1, 2, 3, 4] None \<noteq> Inr (spec_autocorrelation [1, 2, 3, 4])"
    by auto
  with a b show ?thesis by simp
qed

section \<open>Candidate points of a column\<close>

text \<open>
  C4 (the code misses the claim). A run of 1 pixels that reaches the end of the column
  is never closed, so it contributes no candidate point: the column 0, 1, 1 has one run
  and no centre, and the docstring's own example loses its last region (and reports
  exclusive ends where the docstring shows inclusive ones).
\<close>

theorem run_at_bottom_edge_dropped:
  "findContiguousRegionCenters [0, 1, 1] = []
   \<and> getPointLocations \<lparr>height = 3, width = 1, data = [[0], [1], [1]]\<rparr> = [[]]
   \<and> findContiguousRegions [0,0,0,1,1,1,0,0,1,0,0,0,0,0,1,1,1,1,1] = [(3, 6), (8, 9)]"
  by (simp add: findContiguousRegionCenters_def findContiguousRegions_def
      getPointLocations_def swapaxes_def)

section \<open>The transition cost of a point with itself\<close>

lemma abs_le_euclideanDistance: "\<bar>b\<bar> \<le> euclideanDistance a b"
proof -
  have "b ^ 2 \<le> a ^ 2 + b ^ 2" by simp
  then have "sqrt (b ^ 2) \<le> sqrt (a ^ 2 + b ^ 2)" by (rule real_sqrt_le_mono)
  then show ?thesis by (simp add: euclideanDistance_def)
qed

lemma euclideanDistance_zero: "euclideanDistance a b = 0 \<longleftrightarrow> a = 0 \<and> b = 0"
  by (simp add: euclideanDistance_def sum_power2_eq_zero_iff)

lemma angleFromOffsets_defined:
  assumes "a \<noteq> 0 \<or> b \<noteq> 0"
  shows "\<exists>r. angleFromOffsets a b = Inr r"
proof -
  let ?d = "euclideanDistance a b"
  have nz: "?d \<noteq> 0" using assms by (simp add: euclideanDistance_zero)
  have pos: "0 < ?d"
    using nz abs_le_euclideanDistance [of b a] by linarith
  have "\<bar>b / ?d\<bar> \<le> 1"
    using abs_le_euclideanDistance [of b a] pos by (simp add: abs_divide)
  then have "\<not> (b / ?d < - 1 \<or> 1 < b / ?d)" by linarith
  then show ?thesis
    using nz by (simp add: angleFromOffsets_def asin_def Let_def)
qed

lemma angleBetweenPoints_defined:
  "px p \<noteq> px q \<Longrightarrow> \<exists>r. angleBetweenPoints p q = Inr r"
  unfolding angleBetweenPoints_def by (rule angleFromOffsets_defined) simp

lemma score_defined_columns:
  "px p \<noteq> px q \<Longrightarrow> \<exists>c. score p q \<alpha> = Inr c"
  using angleBetweenPoints_defined [of q p] by (auto simp: score_def Let_def)

text \<open>
  C9 (as the code has it). The cost of staying at the same point is not defined: the
  angle of the zero offset divides by the zero distance, which raises, whatever the
  incoming angle. Only the distance term is 0 there.
\<close>

theorem score_same_point:
  "score a a \<alpha> = Inl ZeroDivisionError \<and> distanceBetweenPoints a a = 0"
  by (simp add: score_def angleBetweenPoints_def angleFromOffsets_def euclideanDistance_def
      distanceBetweenPoints_def)

text \<open>C9 as stated fails at the origin with incoming angle 0: the evaluation raises.\<close>

theorem score_same_point_counterexample:
  "score (Point 0 0) (Point 0 0) 0 = Inl ZeroDivisionError
   \<and> score (Point 0 0) (Point 0 0) 0 \<noteq> Inr 0"
  by (simp add: score_def angleBetweenPoints_def angleFromOffsets_def euclideanDistance_def)

section \<open>The Viterbi extractor returns, and what it returns\<close>

subsection \<open>Candidate points are indexed by their column\<close>

lemma getPointLocations_length: "length (getPointLocations b) = width b"
  by (simp add: getPointLocations_def swapaxes_def)

lemma getPointLocations_nth:
  "i < width b \<Longrightarrow> getPointLocations b ! i =
     map (\<lambda>row. Point (int i) (real row)) (findContiguousRegionCenters (swapaxes b ! i))"
  by (simp add: getPointLocations_def swapaxes_def)

lemma getPointLocations_indexed: "columnsIndexed (getPointLocations b)"
  by (auto simp: columnsIndexed_def getPointLocations_length getPointLocations_nth)

subsection \<open>The window of candidates to the left\<close>

lemma set_concat_drop: "set (concat (drop k xs)) \<subseteq> set (concat xs)"
  by (auto dest: in_set_dropD)

lemma py_slice_subset:
  "0 \<le> r \<Longrightarrow> set (flatten (py_slice pbc l r)) \<subseteq> set (concat (take (nat r) pbc))"
proof -
  assume "0 \<le> r"
  then have "take (slice_bound (length pbc) r) pbc = take (nat r) pbc"
    by (simp add: slice_bound_def min_def)
  then show ?thesis
    using set_concat_drop [of "slice_bound (length pbc) l" "take (nat r) pbc"]
    by (simp add: py_slice_def flatten_def)
qed

lemma py_slice_from_zero: "0 \<le> r \<Longrightarrow> py_slice pbc 0 r = take (nat r) pbc"
  by (simp add: py_slice_def slice_bound_def min_def)

lemma expandLeft_subset:
  "set result \<subseteq> S \<Longrightarrow> (\<And>l. set (flatten (py_slice pbc l r)) \<subseteq> S)
   \<Longrightarrow> set (expandLeft pbc l r result) \<subseteq> S"
proof (induction pbc l r result rule: expandLeft.induct)
  case (1 pbc l r result)
  show ?case
  proof (cases "result = [] \<and> l \<ge> 0")
    case True
    then show ?thesis
      using "1.IH" "1.prems"(2) by (subst expandLeft.simps) simp
  next
    case False
    then show ?thesis
      using "1.prems"(1) by (subst expandLeft.simps) auto
  qed
qed

lemma expandLeft_nonempty:
  "0 \<le> l \<Longrightarrow> result = flatten (py_slice pbc l r) \<Longrightarrow> flatten (py_slice pbc 0 r) \<noteq> []
   \<Longrightarrow> expandLeft pbc l r result \<noteq> []"
proof (induction pbc l r result rule: expandLeft.induct)
  case (1 pbc l r result)
  show ?case
  proof (cases "result = []")
    case True
    with "1.prems" have "l \<noteq> 0" by auto
    with "1.prems"(1) have "0 \<le> l - 1" by simp
    with True "1.prems" "1.IH" show ?thesis
      by (subst expandLeft.simps) simp
  next
    case False
    then show ?thesis by (subst expandLeft.simps) simp
  qed
qed

lemma adjacentWindow_subset:
  "0 \<le> s \<Longrightarrow> set (adjacentWindow pbc s lb) \<subseteq> set (concat (take (nat s) pbc))"
  unfolding adjacentWindow_def Let_def
  by (rule expandLeft_subset) (rule py_slice_subset, assumption)+

lemma adjacentWindow_nonempty:
  "0 \<le> s \<Longrightarrow> concat (take (nat s) pbc) \<noteq> [] \<Longrightarrow> adjacentWindow pbc s lb \<noteq> []"
  unfolding adjacentWindow_def Let_def
  by (rule expandLeft_nonempty) (simp_all add: lowerClamp_def py_slice_from_zero flatten_def)

lemma adjacentWindow_empty_iff:
  "0 \<le> s \<Longrightarrow> adjacentWindow pbc s lb = [] \<longleftrightarrow> concat (take (nat s) pbc) = []"
  using adjacentWindow_subset [of s pbc lb] adjacentWindow_nonempty [of s pbc lb]
  by (cases "concat (take (nat s) pbc) = []") auto

lemma columnsIndexed_take:
  assumes "columnsIndexed pbc" "q \<in> set (concat (take k pbc))"
  shows "0 \<le> px q \<and> px q < int k \<and> q \<in> set (concat pbc)"
proof -
  from assms(2) obtain col where col: "col \<in> set (take k pbc)" "q \<in> set col" by auto
  then obtain i where i: "i < length (take k pbc)" "take k pbc ! i = col"
    by (auto simp: in_set_conv_nth)
  then have "i < k" "i < length pbc" "pbc ! i = col" by auto
  with assms(1) col(2) have "px q = int i" by (auto simp: columnsIndexed_def)
  moreover have "q \<in> set (concat pbc)"
    using col by (auto dest: in_set_takeD)
  ultimately show ?thesis using \<open>i < k\<close> by simp
qed

subsection \<open>Lookups, costs and the minimum\<close>

lemma yieldRecorded_ok:
  "set ps \<subseteq> dom t \<Longrightarrow>
   \<exists>r. yieldRecorded t ps = Inr r \<and> map (\<lambda>(s, p, a). p) r = ps"
proof (induction ps)
  case Nil
  then show ?case by simp
next
  case (Cons p ps)
  then obtain r where r: "yieldRecorded t ps = Inr r" "map (\<lambda>(s, p, a). p) r = ps" by auto
  from Cons.prems obtain s q a where "t p = Some (s, q, a)" by (cases "t p") auto
  with r show ?case by simp
qed

lemma scoreCandidates_ok:
  "\<forall>q \<in> set (map (\<lambda>(s, p, a). p) adj). px point \<noteq> px q \<Longrightarrow>
   \<exists>scored. scoreCandidates point adj = Inr scored \<and> map snd scored = map (\<lambda>(s, p, a). p) adj"
proof (induction adj)
  case Nil
  then show ?case by simp
next
  case (Cons c adj)
  obtain s q a where c: "c = (s, q, a)" by (cases c)
  from Cons obtain scored where sc: "scoreCandidates point adj = Inr scored"
      "map snd scored = map (\<lambda>(s, p, a). p) adj" by auto
  from Cons.prems c have "px point \<noteq> px q" by simp
  then obtain v where "score point q a = Inr v" using score_defined_columns by blast
  with sc c show ?case by simp
qed

lemma foldl_min_in: "foldl (\<lambda>best c. if key c < key best then c else best) x xs \<in> set (x # xs)"
  by (induction xs arbitrary: x) auto

lemma py_min_ok: "xs \<noteq> [] \<Longrightarrow> \<exists>m. py_min key xs = Inr m \<and> m \<in> set xs"
  using foldl_min_in [of key] by (cases xs) (auto simp: py_min_def simp del: set_simps)


subsection \<open>Recording the points\<close>

lemma recordPoint_ok:
  assumes dom: "set (adjacentWindow pbc (px point) minimumLookBack) \<subseteq> dom t"
      and left: "\<forall>q \<in> set (adjacentWindow pbc (px point) minimumLookBack). px q < px point"
  shows "\<exists>e. recordPoint pbc t point = Inr (t(point \<mapsto> e)) \<and>
           (if adjacentWindow pbc (px point) minimumLookBack = [] then e = (0, None, 0)
            else \<exists>s q a. e = (s, Some q, a)
                   \<and> q \<in> set (adjacentWindow pbc (px point) minimumLookBack))"
proof -
  let ?w = "adjacentWindow pbc (px point) minimumLookBack"
  from yieldRecorded_ok [OF dom] obtain adj where
    adj: "yieldRecorded t ?w = Inr adj" "map (\<lambda>(s, p, a). p) adj = ?w" by blast
  show ?thesis
  proof (cases "?w = []")
    case True
    with adj have "adj = []" by simp
    with adj True show ?thesis
      by (simp add: recordPoint_def getAdjacent_def index_def)
  next
    case False
    with adj have ne: "adj \<noteq> []" by auto
    from left adj(2) have "\<forall>q \<in> set (map (\<lambda>(s, p, a). p) adj). px point \<noteq> px q" by auto
    from scoreCandidates_ok [OF this] obtain scored where
      sc: "scoreCandidates point adj = Inr scored" "map snd scored = ?w"
      using adj(2) by auto
    from sc(2) False have "scored \<noteq> []" by auto
    from py_min_ok [OF this, of fst] obtain m where m: "py_min fst scored = Inr m" "m \<in> set scored"
      by blast
    obtain bestScore bestPoint where bp: "m = (bestScore, bestPoint)" by (cases m)
    from m(2) bp have "bestPoint \<in> set (map snd scored)" by force
    with sc(2) have inw: "bestPoint \<in> set ?w" by simp
    with left have "px bestPoint \<noteq> px point" by auto
    from angleBetweenPoints_defined [OF this] obtain a where
      a: "angleBetweenPoints bestPoint point = Inr a" by blast
    from adj(1) ne sc(1) m(1) bp a have
      "recordPoint pbc t point = Inr (t(point \<mapsto> (bestScore, Some bestPoint, a)))"
      by (simp add: recordPoint_def getAdjacent_def index_def)
    with inw False show ?thesis
      by (intro exI [of _ "(bestScore, Some bestPoint, a)"]) simp
  qed
qed

lemma recordPoint_inv:
  assumes ci: "columnsIndexed pbc" and k: "k < length pbc" and pt: "point \<in> set (pbc ! k)"
      and prev: "set (concat (take k pbc)) \<subseteq> dom t" and inv: "tableInv pbc t"
  shows "\<exists>t'. recordPoint pbc t point = Inr t' \<and> tableInv pbc t' \<and> dom t' = insert point (dom t)"
proof -
  let ?w = "adjacentWindow pbc (px point) minimumLookBack"
  from ci k pt have pxk: "px point = int k" by (auto simp: columnsIndexed_def)
  have sub: "set ?w \<subseteq> set (concat (take k pbc))"
    using adjacentWindow_subset [of "px point" pbc minimumLookBack] pxk by simp
  have dom: "set ?w \<subseteq> dom t" using sub prev by blast
  have left: "\<forall>q \<in> set ?w. px q < px point"
    using sub columnsIndexed_take [OF ci] pxk by fastforce
  from recordPoint_ok [OF dom left] obtain e where
    e: "recordPoint pbc t point = Inr (t(point \<mapsto> e))"
       "if ?w = [] then e = (0, None, 0)
        else \<exists>s q a. e = (s, Some q, a) \<and> q \<in> set ?w" by blast
  have "pbc ! k \<in> set pbc" using k by simp
  with pt have inpbc: "point \<in> set (concat pbc)" by auto
  have d: "dom (t(point \<mapsto> e)) \<subseteq> set (concat pbc)"
    using inv inpbc by (auto simp: tableInv_def)
  have l: "tableLinked (t(point \<mapsto> e))"
    unfolding tableLinked_def
  proof (intro allI impI)
    fix p s q a
    assume h: "(t(point \<mapsto> e)) p = Some (s, Some q, a)"
    show "q \<in> dom (t(point \<mapsto> e)) \<and> px q < px p"
    proof (cases "p = point")
      case True
      with h have "e = (s, Some q, a)" by simp
      with e(2) have "q \<in> set ?w" by (auto split: if_splits)
      with dom left True show ?thesis by auto
    next
      case False
      with h have "t p = Some (s, Some q, a)" by simp
      with inv have "q \<in> dom t \<and> px q < px p"
        unfolding tableInv_def tableLinked_def by blast
      then show ?thesis by auto
    qed
  qed
  have s: "seeded pbc (t(point \<mapsto> e))"
    unfolding seeded_def
  proof (intro ballI impI)
    fix p
    assume p: "p \<in> dom (t(point \<mapsto> e))" and emp: "concat (take (nat (px p)) pbc) = []"
    show "(t(point \<mapsto> e)) p = Some (0, None, 0)"
    proof (cases "p = point")
      case True
      with emp pxk have "?w = []"
        using adjacentWindow_empty_iff [of "px point" pbc minimumLookBack] by simp
      with e(2) True show ?thesis by simp
    next
      case False
      with p emp inv show ?thesis by (auto simp: tableInv_def seeded_def)
    qed
  qed
  from e(1) d l s show ?thesis by (auto simp: tableInv_def)
qed

lemma recordColumn_inv:
  assumes ci: "columnsIndexed pbc" and k: "k < length pbc"
  shows "set col \<subseteq> set (pbc ! k) \<Longrightarrow> set (concat (take k pbc)) \<subseteq> dom t \<Longrightarrow> tableInv pbc t
         \<Longrightarrow> \<exists>t'. forEach (recordPoint pbc) t col = Inr t' \<and> tableInv pbc t'
                  \<and> dom t' = dom t \<union> set col"
proof (induction col arbitrary: t)
  case Nil
  then show ?case by simp
next
  case (Cons point col)
  from Cons.prems have "point \<in> set (pbc ! k)" by simp
  from recordPoint_inv [OF ci k this Cons.prems(2,3)] obtain t1 where
    t1: "recordPoint pbc t point = Inr t1" "tableInv pbc t1" "dom t1 = insert point (dom t)"
    by blast
  have "set (concat (take k pbc)) \<subseteq> dom t1" using Cons.prems(2) t1(3) by blast
  with Cons.IH [of t1] Cons.prems(1) t1(2) obtain t' where
    "forEach (recordPoint pbc) t1 col = Inr t'" "tableInv pbc t'" "dom t' = dom t1 \<union> set col"
    by auto
  with t1 show ?case by auto
qed

lemma recordColumns_inv:
  assumes ci: "columnsIndexed pbc"
  shows "n = length pbc - k \<Longrightarrow> set (concat (take k pbc)) \<subseteq> dom t \<Longrightarrow> tableInv pbc t
         \<Longrightarrow> \<exists>t'. forEach (\<lambda>t column. forEach (recordPoint pbc) t column) t (drop k pbc) = Inr t'
                  \<and> tableInv pbc t' \<and> set (concat pbc) \<subseteq> dom t'"
proof (induction n arbitrary: k t)
  case 0
  then show ?case by simp
next
  case (Suc n)
  then have k: "k < length pbc" by simp
  then have dr: "drop k pbc = pbc ! k # drop (Suc k) pbc" by (simp add: Cons_nth_drop_Suc)
  from recordColumn_inv [OF ci k _ Suc.prems(2,3), of "pbc ! k"] obtain t1 where
    t1: "forEach (recordPoint pbc) t (pbc ! k) = Inr t1" "tableInv pbc t1"
        "dom t1 = dom t \<union> set (pbc ! k)" by auto
  have "set (concat (take (Suc k) pbc)) \<subseteq> dom t1"
    using Suc.prems(2) t1(3) k by (auto simp: take_Suc_conv_app_nth)
  moreover have "n = length pbc - Suc k" using Suc.prems(1) by simp
  ultimately obtain t' where
    "forEach (\<lambda>t column. forEach (recordPoint pbc) t column) t1 (drop (Suc k) pbc) = Inr t'"
    "tableInv pbc t'" "set (concat pbc) \<subseteq> dom t'"
    using Suc.IH [of "Suc k" t1] t1(2) by blast
  with t1(1) dr show ?case by simp
qed

lemma foldl_seed:
  "foldl (\<lambda>t' point. t'(point \<mapsto> e)) t col = (\<lambda>p. if p \<in> set col then Some e else t p)"
  by (induction col arbitrary: t) (auto simp: fun_eq_iff)

lemma seedTable_eq:
  "seedTable pbc = (\<lambda>p. if p \<in> set (concat (take 1 pbc)) then Some (0, None, 0) else None)"
  by (cases pbc) (simp_all add: seedTable_def foldl_seed)

lemma seedTable_inv: "tableInv pbc (seedTable pbc) \<and> dom (seedTable pbc) = set (concat (take 1 pbc))"
proof -
  have "dom (seedTable pbc) = set (concat (take 1 pbc))"
    by (auto simp: seedTable_eq dom_def)
  moreover have "set (concat (take 1 pbc)) \<subseteq> set (concat pbc)"
    by (cases pbc) auto
  moreover have "tableLinked (seedTable pbc)"
    by (simp add: tableLinked_def seedTable_eq)
  moreover have "seeded pbc (seedTable pbc)"
    by (auto simp: seeded_def seedTable_eq split: if_splits)
  ultimately show ?thesis by (simp add: tableInv_def)
qed

lemma buildTable_ok:
  assumes "columnsIndexed pbc"
  shows "\<exists>t. buildTable pbc = Inr t \<and> tableInv pbc t \<and> dom t = set (concat pbc)"
proof -
  from seedTable_inv [of pbc] have
    "set (concat (take 1 pbc)) \<subseteq> dom (seedTable pbc)" "tableInv pbc (seedTable pbc)" by auto
  from recordColumns_inv [OF assms refl this] obtain t where
    "buildTable pbc = Inr t" "tableInv pbc t" "set (concat pbc) \<subseteq> dom t"
    unfolding buildTable_def by blast
  then show ?thesis by (auto simp: tableInv_def)
qed


subsection \<open>The walk back\<close>

lemma traceBack_ok:
  assumes linked: "tableLinked t" and nonneg: "\<forall>q \<in> dom t. 0 \<le> px q"
  shows "p \<in> dom t \<Longrightarrow>
         \<exists>path. traceBack t (Some p) acc = Some (Inr (acc @ p # path))
                \<and> descending (p # path) \<and> set path \<subseteq> dom t"
proof (induction "nat (px p)" arbitrary: p acc rule: less_induct)
  case less
  from less.prems obtain s prev a where e: "t p = Some (s, prev, a)" by (cases "t p") auto
  from less.prems nonneg have p0: "0 \<le> px p" by auto
  show ?case
  proof (cases prev)
    case None
    with e have "traceBack t (Some p) acc = Some (Inr (acc @ [p]))"
      by (simp add: traceBack.simps)
    with p0 show ?thesis by (simp add: descending_def)
  next
    case (Some q)
    with e linked have q: "q \<in> dom t" "px q < px p"
      unfolding tableLinked_def by blast+
    with nonneg have q0: "0 \<le> px q" by auto
    with q(2) have "nat (px q) < nat (px p)" by simp
    from less.hyps [OF this q(1), of "acc @ [p]"] obtain path where
      path: "traceBack t (Some q) (acc @ [p]) = Some (Inr ((acc @ [p]) @ q # path))"
            "descending (q # path)" "set path \<subseteq> dom t" by blast
    from e Some path(1) have "traceBack t (Some p) acc = Some (Inr (acc @ p # q # path))"
      by (subst traceBack.simps) simp
    moreover from path(2) q(2) p0 have "descending (p # q # path)"
      by (fastforce simp: descending_def)
    moreover from path(3) q(1) have "set (q # path) \<subseteq> dom t" by simp
    ultimately show ?thesis by blast
  qed
qed

subsection \<open>Emission\<close>

lemma np_index_ok: "0 \<le> i \<Longrightarrow> nat i < length arr \<Longrightarrow> np_index arr i = Inr (nat i)"
  by (simp add: np_index_def Let_def)

lemma writePoints_ok:
  "\<forall>p \<in> set ps. 0 \<le> px p \<and> nat (px p) < length signal \<Longrightarrow>
   \<exists>signal'. forEach writePoint signal ps = Inr signal' \<and> length signal' = length signal
      \<and> (\<forall>i. (\<forall>p \<in> set ps. nat (px p) \<noteq> i) \<longrightarrow> signal' ! i = signal ! i)
      \<and> (\<forall>p \<in> set ps. \<not> isnan (signal' ! nat (px p)))"
proof (induction ps arbitrary: signal)
  case Nil
  then show ?case by simp
next
  case (Cons a ps)
  let ?s1 = "signal[nat (px a) := Fin (py a)]"
  from Cons.prems have a: "0 \<le> px a" "nat (px a) < length signal" by auto
  then have w: "writePoint signal a = Inr ?s1"
    by (simp add: writePoint_def np_set_def index_def np_index_ok)
  from Cons.prems have "\<forall>p \<in> set ps. 0 \<le> px p \<and> nat (px p) < length ?s1" by simp
  from Cons.IH [OF this] obtain signal' where
    s': "forEach writePoint ?s1 ps = Inr signal'" "length signal' = length ?s1"
        "\<forall>i. (\<forall>p \<in> set ps. nat (px p) \<noteq> i) \<longrightarrow> signal' ! i = ?s1 ! i"
        "\<forall>p \<in> set ps. \<not> isnan (signal' ! nat (px p))" by blast
  have "\<not> isnan (signal' ! nat (px a))"
  proof (cases "\<exists>p \<in> set ps. nat (px p) = nat (px a)")
    case True
    with s'(4) show ?thesis by metis
  next
    case False
    with s'(3) have "signal' ! nat (px a) = ?s1 ! nat (px a)" by blast
    with a show ?thesis by simp
  qed
  moreover have "\<forall>i. (\<forall>p \<in> set (a # ps). nat (px p) \<noteq> i) \<longrightarrow> signal' ! i = signal ! i"
    using s'(3) by auto
  ultimately show ?case using w s'(1,2,4) by simp
qed

lemma emitPoint_ok:
  assumes inv: "emitted signal priorPoint n" and pt: "0 \<le> px point" "px point < px priorPoint"
  shows "\<exists>signal'. emitPoint (signal, priorPoint) point = Inr (signal', point)
           \<and> emitted signal' point n"
proof -
  from inv have len: "length signal = n" and pr: "nat (px priorPoint) < n"
    and nan: "\<forall>i < n. isnan (signal ! i) \<longleftrightarrow> i < nat (px priorPoint)"
    by (simp_all add: emitted_def)
  let ?j = "nat (px point + 1)"
  from pt pr have j: "?j < n" "?j \<le> nat (px priorPoint)" by auto
  with pt len have get: "np_get signal (index point + 1) = Inr (signal ! ?j)"
    by (simp add: np_get_def index_def np_index_ok)
  let ?between = "map (\<lambda>c. Point c ((py priorPoint - py point) / real_of_int (px priorPoint - px point)
                    * real_of_int (c - px priorPoint) + py priorPoint))
                  [px point + 1..px priorPoint - 1]"
  have "\<exists>s1. (if isnan (signal ! ?j)
              then (case interpolate point priorPoint of
                      Inl e \<Rightarrow> Inl e
                    | Inr between \<Rightarrow> forEach writePoint signal between)
              else Inr signal) = Inr s1
          \<and> length s1 = n
          \<and> (\<forall>i < n. isnan (s1 ! i) \<longleftrightarrow> i \<le> nat (px point))"
  proof (cases "isnan (signal ! ?j)")
    case True
    from pt have ip: "interpolate point priorPoint = Inr ?between"
      by (simp add: interpolate_def index_def Let_def)
    have "\<forall>p \<in> set ?between. 0 \<le> px p \<and> nat (px p) < length signal"
      using pt pr len by auto
    from writePoints_ok [OF this] obtain s1 where
      s1: "forEach writePoint signal ?between = Inr s1" "length s1 = length signal"
          "\<forall>i. (\<forall>p \<in> set ?between. nat (px p) \<noteq> i) \<longrightarrow> s1 ! i = signal ! i"
          "\<forall>p \<in> set ?between. \<not> isnan (s1 ! nat (px p))" by blast
    have "isnan (s1 ! i) \<longleftrightarrow> i \<le> nat (px point)" if i: "i < n" for i
    proof (cases "px point + 1 \<le> int i \<and> int i \<le> px priorPoint - 1")
      case True
      then have "Point (int i) ((py priorPoint - py point) / real_of_int (px priorPoint - px point)
                    * real_of_int (int i - px priorPoint) + py priorPoint) \<in> set ?between"
        by (simp add: image_iff)
      with s1(4) have "\<not> isnan (s1 ! nat (int i))" by fastforce
      moreover from True pt have "\<not> i \<le> nat (px point)" by linarith
      ultimately show ?thesis by simp
    next
      case False
      have "nat (px p) \<noteq> i" if "p \<in> set ?between" for p
      proof -
        from that have c: "px point + 1 \<le> px p" "px p \<le> px priorPoint - 1" by auto
        with pt have "int (nat (px p)) = px p" by simp
        with c False show ?thesis by metis
      qed
      then have "\<forall>p \<in> set ?between. nat (px p) \<noteq> i" by blast
      with s1(3) have "s1 ! i = signal ! i" by blast
      with nan i False pt show ?thesis by auto
    qed
    with True ip s1(1,2) len show ?thesis by simp
  next
    case False
    with nan j have "px priorPoint = px point + 1" using pt by auto
    with False nan len pt show ?thesis by auto
  qed
  then obtain s1 where
    s1: "(if isnan (signal ! ?j)
          then (case interpolate point priorPoint of
                  Inl e \<Rightarrow> Inl e
                | Inr between \<Rightarrow> forEach writePoint signal between)
          else Inr signal) = Inr s1"
        "length s1 = n" "\<forall>i < n. isnan (s1 ! i) \<longleftrightarrow> i \<le> nat (px point)" by blast
  let ?s2 = "s1[nat (px point) := Fin (py point)]"
  from pt pr s1(2) have lt: "nat (px point) < length s1" by auto
  with pt have w: "writePoint s1 point = Inr ?s2"
    by (simp add: writePoint_def np_set_def index_def np_index_ok)
  have "emitted ?s2 point n"
    unfolding emitted_def using s1(2,3) pt lt by (auto simp: nth_list_update)
  moreover have "emitPoint (signal, priorPoint) point = Inr (?s2, point)"
    unfolding emitPoint_def using get s1(1) w by simp
  ultimately show ?thesis by blast
qed

lemma emitPoints_ok:
  "emitted signal priorPoint n \<Longrightarrow> descending (priorPoint # rest) \<Longrightarrow>
   \<exists>signal'. forEach emitPoint (signal, priorPoint) rest = Inr (signal', last (priorPoint # rest))
      \<and> emitted signal' (last (priorPoint # rest)) n"
proof (induction rest arbitrary: signal priorPoint)
  case Nil
  then show ?case by simp
next
  case (Cons point rest)
  from Cons.prems(2) have pt: "0 \<le> px point" "px point < px priorPoint"
    and d: "descending (point # rest)"
    by (auto simp: descending_def)
  from emitPoint_ok [OF Cons.prems(1) pt] obtain s1 where
    s1: "emitPoint (signal, priorPoint) point = Inr (s1, point)" "emitted s1 point n" by blast
  from Cons.IH [OF s1(2) d] s1(1) show ?case by simp
qed

lemma convertPointsToSignal_ok:
  assumes "descending path" "path \<noteq> []"
  shows "\<exists>signal. convertPointsToSignal path None = Inr signal
           \<and> length signal = nat (px (hd path)) + 1
           \<and> (\<forall>i < length signal. isnan (signal ! i) \<longleftrightarrow> i < nat (px (last path)))"
proof -
  from assms(2) obtain firstPoint others where path: "path = firstPoint # others"
    by (cases path) auto
  with assms(1) have f0: "0 \<le> px firstPoint" by (simp add: descending_def)
  let ?n = "nat (px firstPoint + 1)"
  let ?s1 = "(replicate ?n NaN)[nat (px firstPoint) := Fin (py firstPoint)]"
  from f0 have full: "np_full (px firstPoint + 1) NaN = Inr (replicate ?n NaN)"
    by (simp add: np_full_def)
  from f0 have w: "writePoint (replicate ?n NaN) firstPoint = Inr ?s1"
    by (simp add: writePoint_def np_set_def index_def np_index_ok)
  from f0 have "emitted ?s1 firstPoint ?n"
    by (auto simp: emitted_def nth_list_update)
  from emitPoints_ok [OF this, of others] assms(1) path obtain signal where
    sg: "forEach emitPoint (?s1, firstPoint) others = Inr (signal, last path)"
        "emitted signal (last path) ?n" by auto
  from full w sg(1) path have "convertPointsToSignal path None = Inr signal"
    by (simp add: convertPointsToSignal_def)
  moreover from sg(2) f0 path have "length signal = nat (px (hd path)) + 1"
    by (simp add: emitted_def nat_add_distrib)
  moreover from sg(2) have "\<forall>i < length signal. isnan (signal ! i) \<longleftrightarrow> i < nat (px (last path))"
    by (simp add: emitted_def)
  ultimately show ?thesis by blast
qed


subsection \<open>The whole extraction\<close>

lemma columnsIndexed_points:
  assumes "columnsIndexed pbc" "q \<in> set (concat pbc)"
  shows "0 \<le> px q \<and> px q < int (length pbc)"
  using columnsIndexed_take [OF assms(1), of q "length pbc"] assms(2) by simp

lemma bestPathOf_ok:
  assumes ci: "columnsIndexed pbc" and ne: "concat pbc \<noteq> []"
  shows "\<exists>t cands path.
           buildTable pbc = Inr t \<and> tableInv pbc t \<and> dom t = set (concat pbc)
           \<and> getAdjacent pbc t (int (length pbc)) OPTIMAL_ENDING_WIDTH = Inr cands \<and> cands \<noteq> []
           \<and> bestPathOf pbc (int (length pbc)) = Some (Inr path)
           \<and> path \<noteq> [] \<and> descending path \<and> px (hd path) < int (length pbc)"
proof -
  let ?W = "int (length pbc)"
  let ?w = "adjacentWindow pbc ?W OPTIMAL_ENDING_WIDTH"
  from buildTable_ok [OF ci] obtain t where
    t: "buildTable pbc = Inr t" "tableInv pbc t" "dom t = set (concat pbc)" by blast
  have wsub: "set ?w \<subseteq> dom t"
    using adjacentWindow_subset [of ?W pbc OPTIMAL_ENDING_WIDTH] t(3) by simp
  have wne: "?w \<noteq> []"
    using adjacentWindow_nonempty [of ?W pbc OPTIMAL_ENDING_WIDTH] ne by simp
  from yieldRecorded_ok [OF wsub] obtain cands where
    c: "yieldRecorded t ?w = Inr cands" "map (\<lambda>(s, p, a). p) cands = ?w" by blast
  with wne have cne: "cands \<noteq> []" by auto
  let ?pairs = "map (\<lambda>(totalScore, point, _). (totalScore, point)) cands"
  from cne have "?pairs \<noteq> []" by simp
  from py_min_ok [OF this, of fst] obtain m where
    m: "py_min fst ?pairs = Inr m" "m \<in> set ?pairs" by blast
  obtain sc current where mc: "m = (sc, current)" by (cases m)
  from m(2) mc have "current \<in> set (map (\<lambda>(s, p, a). p) cands)" by force
  with c(2) wsub have cur: "current \<in> dom t" by auto
  have nonneg: "\<forall>q \<in> dom t. 0 \<le> px q"
    using columnsIndexed_points [OF ci] t(3) by blast
  from t(2) have "tableLinked t" by (simp add: tableInv_def)
  from traceBack_ok [OF this nonneg cur, of "[]"] obtain rest where
    r: "traceBack t (Some current) [] = Some (Inr (current # rest))"
       "descending (current # rest)" by auto
  have "bestPathOf pbc ?W = Some (Inr (current # rest))"
    using t(1) c(1) m(1) mc r(1) by (simp add: bestPathOf_def getAdjacent_def)
  moreover have "px current < ?W"
    using columnsIndexed_points [OF ci] cur t(3) by blast
  ultimately show ?thesis
    using t c(1) cne r(2) by (auto simp: getAdjacent_def)
qed

lemma seeded_leftmost:
  assumes ci: "columnsIndexed pbc" and inv: "tableInv pbc t" and dom: "dom t = set (concat pbc)"
      and p: "p \<in> set (concat pbc)" and left: "\<forall>q \<in> set (concat pbc). \<not> px q < px p"
  shows "t p = Some (0, None, 0)"
proof -
  from columnsIndexed_points [OF ci p] have p0: "0 \<le> px p" by simp
  have "concat (take (nat (px p)) pbc) = []"
  proof (rule ccontr)
    assume "concat (take (nat (px p)) pbc) \<noteq> []"
    then obtain q where "q \<in> set (concat (take (nat (px p)) pbc))"
      by (meson last_in_set)
    from columnsIndexed_take [OF ci this] p0 left show False by auto
  qed
  with inv dom p show ?thesis by (auto simp: tableInv_def seeded_def)
qed

lemma extractSignal_ok:
  assumes "flatten (getPointLocations binary) \<noteq> []"
  shows "\<exists>path signal.
           bestPathOf (getPointLocations binary) (int (width binary)) = Some (Inr path)
           \<and> path \<noteq> [] \<and> descending path \<and> px (hd path) < int (width binary)
           \<and> extractSignal binary = Some (Inr (Some signal))
           \<and> length signal = nat (px (hd path)) + 1
           \<and> (\<forall>i < length signal. isnan (signal ! i) \<longleftrightarrow> i < nat (px (last path)))"
proof -
  let ?pbc = "getPointLocations binary"
  from assms have ne: "concat ?pbc \<noteq> []" by (simp add: flatten_def)
  from bestPathOf_ok [OF getPointLocations_indexed ne] obtain path where
    path: "bestPathOf ?pbc (int (width binary)) = Some (Inr path)" "path \<noteq> []"
          "descending path" "px (hd path) < int (width binary)"
    by (auto simp: getPointLocations_length)
  from convertPointsToSignal_ok [OF path(3,2)] obtain signal where
    sg: "convertPointsToSignal path None = Inr signal" "length signal = nat (px (hd path)) + 1"
        "\<forall>i < length signal. isnan (signal ! i) \<longleftrightarrow> i < nat (px (last path))" by blast
  from assms path(1) sg(1) have "extractSignal binary = Some (Inr (Some signal))"
    by (simp add: extractSignal_def Let_def)
  with path sg(2,3) show ?thesis by blast
qed

lemma replicate_two: "replicate 2 v = [v, v]"
  by (simp add: numeral_2_eq_2)

lemmas evaluate_extraction =
  extractSignal_def getPointLocations_def swapaxes_def findContiguousRegionCenters_def
  findContiguousRegions_def flatten_def bestPathOf_def buildTable_def seedTable_def
  recordPoint_def getAdjacent_def adjacentWindow_def lowerClamp_def py_slice_def slice_bound_def
  expandLeft.simps py_min_def convertPointsToSignal_def np_full_def writePoint_def np_set_def
  np_index_def np_get_def index_def traceBack.simps OPTIMAL_ENDING_WIDTH_def minimumLookBack_def
  emitPoint_def interpolate_def score_def angleBetweenPoints_def angleFromOffsets_def
  euclideanDistance_def asin_def distanceBetweenPoints_def angleSimilarity_def
  DISTANCE_WEIGHT_def upt_conv_Cons replicate_two

text \<open>
  C3 (as the code has it). For a mask with at least one candidate point the extractor
  returns an array whose length is the column of the path's end point plus one, which
  is at most the width \<open>W\<close> (the array is allocated from the end point, not from the
  width). The columns to the left of the path's leftmost point hold the not-a-number
  marker and every column from there to the end point holds a number.
\<close>

theorem extractSignal_length:
  assumes "flatten (getPointLocations binary) \<noteq> []"
  shows "\<exists>path signal.
           bestPathOf (getPointLocations binary) (int (width binary)) = Some (Inr path)
           \<and> path \<noteq> []
           \<and> extractSignal binary = Some (Inr (Some signal))
           \<and> length signal = nat (px (hd path)) + 1
           \<and> length signal \<le> width binary
           \<and> (\<forall>i < length signal. isnan (signal ! i) \<longleftrightarrow> i < nat (px (last path)))"
proof -
  from extractSignal_ok [OF assms] obtain path signal where
    r: "bestPathOf (getPointLocations binary) (int (width binary)) = Some (Inr path)"
       "path \<noteq> []" "px (hd path) < int (width binary)"
       "extractSignal binary = Some (Inr (Some signal))"
       "length signal = nat (px (hd path)) + 1"
       "\<forall>i < length signal. isnan (signal ! i) \<longleftrightarrow> i < nat (px (last path))"
       "descending path" by blast
  from r(2,7) have "0 \<le> px (hd path)" by (simp add: descending_def)
  with r(3,5) have "length signal \<le> width binary" by linarith
  with r(1,2,4,5,6) show ?thesis by blast
qed

theorem extractSignal_length_witness:
  "flatten (getPointLocations \<lparr>height = 2, width = 3, data = [[1, 0, 0], [0, 0, 0]]\<rparr>) \<noteq> []
   \<and> (\<exists>path signal.
         bestPathOf (getPointLocations \<lparr>height = 2, width = 3, data = [[1, 0, 0], [0, 0, 0]]\<rparr>)
           (int (width \<lparr>height = 2, width = 3, data = [[1, 0, 0], [0, 0, 0]]\<rparr>)) = Some (Inr path)
         \<and> path \<noteq> []
         \<and> extractSignal \<lparr>height = 2, width = 3, data = [[1, 0, 0], [0, 0, 0]]\<rparr>
             = Some (Inr (Some signal))
         \<and> length signal = nat (px (hd path)) + 1
         \<and> length signal \<le> width \<lparr>height = 2, width = 3, data = [[1, 0, 0], [0, 0, 0]]\<rparr>
         \<and> (\<forall>i < length signal. isnan (signal ! i) \<longleftrightarrow> i < nat (px (last path))))"
proof -
  have h: "flatten (getPointLocations \<lparr>height = 2, width = 3, data = [[1, 0, 0], [0, 0, 0]]\<rparr>) \<noteq> []"
    by (simp add: evaluate_extraction)
  from extractSignal_length [OF h] h show ?thesis by blast
qed

text \<open>
  C3 as stated fails: a mask of width 3 whose only candidate is in column 0 gives an
  array of length 1, and a mask of width 4 with candidates in columns 1 and 3 gives an
  array of length 2 (the end point chosen is the cheaper one, in column 1).
\<close>

theorem extractSignal_length_counterexample:
  "extractSignal \<lparr>height = 2, width = 3, data = [[1, 0, 0], [0, 0, 0]]\<rparr>
     = Some (Inr (Some [Fin 0]))
   \<and> length [Fin 0] \<noteq> width \<lparr>height = 2, width = 3, data = [[1, 0, 0], [0, 0, 0]]\<rparr>
   \<and> extractSignal \<lparr>height = 3, width = 4, data = [[0, 0, 0, 0], [0, 1, 0, 1], [0, 0, 0, 0]]\<rparr>
     = Some (Inr (Some [NaN, Fin 1]))"
  by (simp add: evaluate_extraction)

text \<open>
  C10. For an image with at least one candidate point \<open>extractSignal\<close> returns a signal:
  no branch of the model that raises is taken and the walk back ends. The table is built
  without a failed assertion, the candidates of the final minimisation are found and are
  not empty, and a candidate with no candidate in any column to its left is recorded as
  \<open>(0, None, 0)\<close>.
\<close>

theorem extractSignal_completes:
  assumes "flatten (getPointLocations binary) \<noteq> []"
  shows "(\<exists>signal. extractSignal binary = Some (Inr (Some signal)))
         \<and> (\<exists>t cands.
               buildTable (getPointLocations binary) = Inr t
               \<and> getAdjacent (getPointLocations binary) t (int (width binary)) OPTIMAL_ENDING_WIDTH
                   = Inr cands
               \<and> cands \<noteq> []
               \<and> (\<forall>p \<in> set (flatten (getPointLocations binary)).
                     (\<forall>q \<in> set (flatten (getPointLocations binary)). \<not> px q < px p)
                     \<longrightarrow> t p = Some (0, None, 0)))"
proof -
  let ?pbc = "getPointLocations binary"
  from assms have ne: "concat ?pbc \<noteq> []" by (simp add: flatten_def)
  from bestPathOf_ok [OF getPointLocations_indexed ne] obtain t cands where
    t: "buildTable ?pbc = Inr t" "tableInv ?pbc t" "dom t = set (concat ?pbc)"
       "getAdjacent ?pbc t (int (width binary)) OPTIMAL_ENDING_WIDTH = Inr cands" "cands \<noteq> []"
    by (auto simp: getPointLocations_length)
  have "\<forall>p \<in> set (flatten ?pbc). (\<forall>q \<in> set (flatten ?pbc). \<not> px q < px p)
          \<longrightarrow> t p = Some (0, None, 0)"
    using seeded_leftmost [OF getPointLocations_indexed t(2,3)] by (simp add: flatten_def)
  with t(1,4,5) extractSignal_ok [OF assms] show ?thesis by blast
qed

theorem extractSignal_completes_witness:
  "flatten (getPointLocations \<lparr>height = 3, width = 2, data = [[0, 0], [0, 1], [0, 0]]\<rparr>) \<noteq> []
   \<and> (\<exists>signal. extractSignal \<lparr>height = 3, width = 2, data = [[0, 0], [0, 1], [0, 0]]\<rparr>
          = Some (Inr (Some signal)))"
proof -
  have h: "flatten (getPointLocations \<lparr>height = 3, width = 2, data = [[0, 0], [0, 1], [0, 0]]\<rparr>) \<noteq> []"
    by (simp add: evaluate_extraction)
  from extractSignal_completes [OF h] h show ?thesis by blast
qed

section \<open>The hill climb of the Otsu threshold\<close>

lemma upt_split: "a \<le> b \<Longrightarrow> b \<le> c \<Longrightarrow> [a..<c] = [a..<b] @ [b..<c]"
  by (metis le_Suc_ex upt_add_eq_append)

lemma map_zeros: "\<forall>v \<in> set xs. f v = c \<Longrightarrow> map f xs = replicate (length xs) c"
  by (induction xs) simp_all

lemma bins_twoHumps: "[0..<255] = [0..<125] @ [125, 126, 127, 128, 129] @ [130..<255]"
proof -
  have "[0..<255] = [0..<125] @ [125..<255]" by (rule upt_split) simp_all
  also have "[125..<255] = [125..<130] @ [130..<255]" by (rule upt_split) simp_all
  also have "[125..<130] = [125, 126, 127, 128, 129]" by (simp add: upt_conv_Cons)
  finally show ?thesis .
qed

lemma histogram_twoHumps:
  "histogram twoHumps = replicate 125 0 @ [18, 18, 0, 0, 1] @ replicate 125 0"
proof -
  let ?count = "\<lambda>bin. length (filter (\<lambda>v. min v 254 = bin) (concat (data twoHumps)))"
  have c: "?count bin = (if bin = 125 then 18 else 0) + (if bin = 126 then 18 else 0)
                        + (if bin = 129 then 1 else 0)" for bin :: nat
    by (auto simp: twoHumps_def filter_replicate)
  have "\<forall>v \<in> set [0..<125]. ?count v = 0"
    by (simp add: c del: upt_rec_numeral)
  from map_zeros [OF this] have lo: "map ?count [0..<125] = replicate 125 0"
    by (simp del: upt_rec_numeral)
  have "\<forall>v \<in> set [130..<255]. ?count v = 0"
    by (simp add: c del: upt_rec_numeral)
  from map_zeros [OF this] have hi: "map ?count [130..<255] = replicate 125 0"
    by (simp del: upt_rec_numeral)
  have mid: "map ?count [125, 126, 127, 128, 129] = [18, 18, 0, 0, 1]"
    by (simp add: c)
  show ?thesis
    unfolding histogram_def bins_twoHumps map_append lo hi mid ..
qed

lemma exact_ops:
  "f_add exact = fadd" "f_sub exact = fsub" "f_mul exact = fmul" "f_div exact = fdiv"
  by (simp_all add: exact_def)

lemma probabilities_twoHumps:
  "probabilities exact twoHumps =
     replicate 125 (Fin 0) @ [Fin (18 / 37), Fin (18 / 37), Fin 0, Fin 0, Fin (1 / 37)]
     @ replicate 125 (Fin 0)"
  unfolding probabilities_def Let_def histogram_twoHumps by (simp add: twoHumps_def exact_ops)

lemma sum_zeros: "foldl fadd (Fin a) (replicate n (Fin 0)) = Fin a"
  by (induction n) simp_all

lemma weighted_zeros:
  "foldl fadd (Fin a) (map (\<lambda>(i, p_i). fmul (Fin (w i)) p_i)
                          (enumerate m (replicate n (Fin 0)))) = Fin a"
  by (induction n arbitrary: m) simp_all

lemmas evaluate_otsu = omega_def mu_def py_sum_def probabilities_twoHumps py_slice_from_zero
  sum_zeros weighted_zeros enumerate_append_eq exact_ops

lemma mu_T_twoHumps: "mu exact twoHumps 256 = Fin (4684 / 37)"
  by (simp add: evaluate_otsu)

lemma omega_twoHumps:
  "omega exact twoHumps 126 = Fin (18 / 37)" "omega exact twoHumps 127 = Fin (36 / 37)"
  "omega exact twoHumps 128 = Fin (36 / 37)" "omega exact twoHumps 129 = Fin (36 / 37)"
  by (simp_all add: evaluate_otsu)

lemma mu_twoHumps:
  "mu exact twoHumps 126 = Fin (2268 / 37)" "mu exact twoHumps 127 = Fin (4554 / 37)"
  "mu exact twoHumps 128 = Fin (4554 / 37)" "mu exact twoHumps 129 = Fin (4554 / 37)"
  by (simp_all add: evaluate_otsu)

lemma sigma_B_twoHumps:
  "sigma_B exact twoHumps 126 = Fin (156816 / 468198)" "sigma_B exact twoHumps 127 = Fin (441 / 1369)"
  "sigma_B exact twoHumps 128 = Fin (441 / 1369)" "sigma_B exact twoHumps 129 = Fin (441 / 1369)"
  by (simp_all add: sigma_B_def mu_T_twoHumps omega_twoHumps mu_twoHumps exact_ops fsub_def)

lemma otsuThreshold_twoHumps: "otsuThreshold exact twoHumps = Inr 128"
  unfolding otsuThreshold_def climb1dHill_def Let_def
  by (subst climb.simps) (simp add: sigma_B_twoHumps)

lemma remdups_adj_run: "remdups_adj (v # replicate n v @ ys) = remdups_adj (v # ys)"
  by (induction n) simp_all

lemma remdups_adj_run_end: "remdups_adj (v # replicate n v) = [v]"
  by (induction n) simp_all

lemma modeCount_twoHumps: "modeCount (histogram twoHumps) = 2"
  unfolding histogram_twoHumps
  by (simp add: modeCount_def remdups_adj_run remdups_adj_run_end replicate_append_same)

lemma climb_returns:
  "s = ev (xs ! i) \<Longrightarrow> 0 < i \<Longrightarrow> i + 1 < length xs \<Longrightarrow>
   \<not> fgt (ev (xs ! 0)) (ev (xs ! 1)) \<Longrightarrow>
   \<not> fgt (ev (xs ! (length xs - 1))) (ev (xs ! (length xs - 2))) \<Longrightarrow>
   \<exists>j. climb xs ev i s = Inr (xs ! j) \<and> 0 < j \<and> j + 1 < length xs
       \<and> \<not> fgt (ev (xs ! (j - 1))) (ev (xs ! j))
       \<and> \<not> fgt (ev (xs ! (j + 1))) (ev (xs ! j))"
proof (induction xs ev i s rule: climb.induct)
  case (1 xs evaluate currentIndex currentScore)
  note score = "1.prems"(1) and pos = "1.prems"(2) and below = "1.prems"(3)
    and lo = "1.prems"(4) and hi = "1.prems"(5)
  from pos below have inner:
    "\<not> (\<not> (currentIndex > 0) \<or> \<not> (int currentIndex < int (length xs) - 1))"
    by auto
  show ?case
  proof (cases "fgt (evaluate (xs ! (currentIndex - 1))) currentScore")
    case True
    have "currentIndex \<noteq> 1"
    proof
      assume "currentIndex = 1"
      with True score lo show False by simp
    qed
    with pos have p: "0 < currentIndex - 1" by simp
    from pos below have b: "currentIndex - 1 + 1 < length xs" by simp
    from "1.IH"(1) [OF inner refl refl True refl p b lo hi] inner True show ?thesis
      by (subst climb.simps) (simp add: Let_def)
  next
    case left: False
    show ?thesis
    proof (cases "fgt (evaluate (xs ! (currentIndex + 1))) currentScore")
      case True
      have "currentIndex + 2 \<noteq> length xs"
      proof
        assume e: "currentIndex + 2 = length xs"
        then have "length xs - 1 = currentIndex + 1" "length xs - 2 = currentIndex" by simp_all
        with True score hi show False by simp
      qed
      with below have b: "currentIndex + 1 + 1 < length xs" by simp
      have p: "0 < currentIndex + 1" by simp
      from "1.IH"(2) [OF inner refl refl left True refl p b lo hi] inner left True show ?thesis
        by (subst climb.simps) (simp add: Let_def)
    next
      case False
      with inner left have "climb xs evaluate currentIndex currentScore = Inr (xs ! currentIndex)"
        by (subst climb.simps) (simp add: Let_def)
      with pos below left False score show ?thesis by auto
    qed
  qed
qed

lemma otsuThreshold_returns:
  assumes "\<not> fgt (sigma_B ops gray 0) (sigma_B ops gray 1)"
      and "\<not> fgt (sigma_B ops gray 255) (sigma_B ops gray 254)"
  shows "\<exists>k. otsuThreshold ops gray = Inr k \<and> 1 \<le> k \<and> k \<le> 254
           \<and> \<not> fgt (sigma_B ops gray (k - 1)) (sigma_B ops gray k)
           \<and> \<not> fgt (sigma_B ops gray (k + 1)) (sigma_B ops gray k)"
proof -
  let ?xs = "map int [0..<256]"
  have nth: "?xs ! j = int j" if "j < 256" for j
    using that by (simp del: upt_rec_numeral)
  have len: "length ?xs = 256" by simp
  have o: "otsuThreshold ops gray
           = climb ?xs (sigma_B ops gray) 128 (sigma_B ops gray (?xs ! 128))"
    by (simp add: otsuThreshold_def climb1dHill_def del: upt_rec_numeral)
  have "\<exists>j. climb ?xs (sigma_B ops gray) 128 (sigma_B ops gray (?xs ! 128)) = Inr (?xs ! j)
          \<and> 0 < j \<and> j + 1 < length ?xs
          \<and> \<not> fgt (sigma_B ops gray (?xs ! (j - 1))) (sigma_B ops gray (?xs ! j))
          \<and> \<not> fgt (sigma_B ops gray (?xs ! (j + 1))) (sigma_B ops gray (?xs ! j))"
  proof (rule climb_returns)
    show "\<not> fgt (sigma_B ops gray (?xs ! 0)) (sigma_B ops gray (?xs ! 1))"
      using assms(1) nth [of 0] nth [of 1] by simp
    show "\<not> fgt (sigma_B ops gray (?xs ! (length ?xs - 1)))
              (sigma_B ops gray (?xs ! (length ?xs - 2)))"
      using assms(2) nth [of 255] nth [of 254] by (simp del: upt_rec_numeral)
  qed (simp_all del: upt_rec_numeral)
  then obtain j where j: "otsuThreshold ops gray = Inr (?xs ! j)" "0 < j" "j + 1 < 256"
      "\<not> fgt (sigma_B ops gray (?xs ! (j - 1))) (sigma_B ops gray (?xs ! j))"
      "\<not> fgt (sigma_B ops gray (?xs ! (j + 1))) (sigma_B ops gray (?xs ! j))"
    unfolding o len by blast
  from j(2,3) have "?xs ! j = int j" "?xs ! (j - 1) = int j - 1" "?xs ! (j + 1) = int j + 1"
    using nth [of j] nth [of "j - 1"] nth [of "j + 1"] by (simp_all add: of_nat_diff)
  with j show ?thesis by (intro exI [of _ "int j"]) (simp add: add.commute)
qed


lemma sum_finite: "foldl fadd (Fin a) (map Fin xs) = Fin (a + sum_list xs)"
  by (induction xs arbitrary: a) (simp_all add: add.assoc)

lemma weighted_finite:
  "\<exists>b. foldl fadd (Fin a) (map (\<lambda>(i, p_i). fmul (Fin (w i)) p_i) (enumerate m (map Fin xs)))
        = Fin b"
  by (induction xs arbitrary: a m) simp_all

lemma indicator_sum:
  "sum_list (map (\<lambda>bin. if k = bin then 1 else 0) [0..<n]) = (if k < n then 1 else (0 :: nat))"
  by (induction n) auto

lemma bin_counts:
  "\<forall>v. f v < n \<Longrightarrow>
   sum_list (map (\<lambda>bin. length (filter (\<lambda>v. f v = bin) xs)) [0..<n]) = length xs"
proof (induction xs)
  case Nil
  then show ?case by (simp add: sum_list_0)
next
  case (Cons x xs)
  have "sum_list (map (\<lambda>bin. length (filter (\<lambda>v. f v = bin) (x # xs))) [0..<n])
        = sum_list (map (\<lambda>bin. (if f x = bin then 1 else 0)
                                + length (filter (\<lambda>v. f v = bin) xs)) [0..<n])"
    by (intro arg_cong [of _ _ sum_list] map_cong) auto
  also have "\<dots> = sum_list (map (\<lambda>bin. if f x = bin then 1 else 0) [0..<n])
                  + sum_list (map (\<lambda>bin. length (filter (\<lambda>v. f v = bin) xs)) [0..<n])"
    by (simp add: sum_list_addf)
  also have "sum_list (map (\<lambda>bin. if f x = bin then 1 else 0) [0..<n]) = (1 :: nat)"
    using Cons.prems by (simp add: indicator_sum)
  finally show ?case using Cons by simp
qed


lemma sigma_B_exact_first: "isnan (sigma_B exact gray 0)"
proof -
  have "omega exact gray 0 = Fin 0" "mu exact gray 0 = Fin 0"
    by (simp_all add: omega_def mu_def py_sum_def py_slice_def slice_bound_def)
  then show ?thesis
    by (cases "mu exact gray 256")
       (simp_all add: sigma_B_def exact_ops fsub_def inf_of_sign_def)
qed

lemma pixel_count:
  assumes "coherent gray"
  shows "length (concat (data gray)) = height gray * width gray"
proof -
  from assms have "map length (data gray) = map (\<lambda>row. width gray) (data gray)"
    by (simp add: coherent_def)
  also from assms have "\<dots> = replicate (height gray) (width gray)"
    by (simp add: coherent_def map_replicate_const)
  finally have "map length (data gray) = replicate (height gray) (width gray)" .
  then show ?thesis by (simp add: length_concat sum_list_replicate)
qed

lemma sum_list_scaled: "sum_list (map (\<lambda>c. real c / N) xs) = real (sum_list xs) / N"
  by (induction xs) (simp_all add: add_divide_distrib)

lemma sigma_B_exact_last:
  assumes "coherent gray" "0 < height gray * width gray"
  shows "isnan (sigma_B exact gray 255)"
proof -
  let ?N = "real (height gray * width gray)"
  let ?qs = "map (\<lambda>c. real c / ?N) (histogram gray)"
  from assms(2) have N: "?N \<noteq> 0" by simp
  have p: "probabilities exact gray = map Fin ?qs"
    using N by (simp add: probabilities_def exact_ops Let_def del: of_nat_mult)
  have len: "length (probabilities exact gray) = 255"
    by (simp add: probabilities_def histogram_def Let_def)
  have sl: "py_slice (probabilities exact gray) 0 255 = probabilities exact gray"
    "py_slice (probabilities exact gray) 0 256 = probabilities exact gray"
    using len by (simp_all add: py_slice_def slice_bound_def)
  have "sum_list (histogram gray) = length (concat (data gray))"
    unfolding histogram_def by (rule bin_counts) (simp add: min_def)
  with pixel_count [OF assms(1)] have "real (sum_list (histogram gray)) = ?N" by simp
  with N have one: "sum_list ?qs = 1" by (simp add: sum_list_scaled del: of_nat_mult)
  have "omega exact gray 255 = foldl fadd (Fin 0) (probabilities exact gray)"
    by (simp only: omega_def py_sum_def sl exact_ops)
  also have "\<dots> = foldl fadd (Fin 0) (map Fin ?qs)" by (simp only: p)
  also have "\<dots> = Fin (0 + sum_list ?qs)" by (rule sum_finite)
  finally have om: "omega exact gray 255 = Fin 1" using one by simp
  obtain b where b: "foldl fadd (Fin 0)
      (map (\<lambda>(i, p_i). fmul (Fin (real (i + 1))) p_i) (enumerate 0 (map Fin ?qs))) = Fin b"
    using weighted_finite [of 0 "\<lambda>i. real (i + 1)" 0 ?qs] by blast
  have "mu exact gray 255 = foldl fadd (Fin 0)
      (map (\<lambda>(i, p_i). fmul (Fin (real (i + 1))) p_i) (enumerate 0 (probabilities exact gray)))"
    by (simp only: mu_def py_sum_def sl exact_ops)
  also have "\<dots> = Fin b" by (simp only: p b)
  finally have m1: "mu exact gray 255 = Fin b" .
  have "mu exact gray 256 = foldl fadd (Fin 0)
      (map (\<lambda>(i, p_i). fmul (Fin (real (i + 1))) p_i) (enumerate 0 (probabilities exact gray)))"
    by (simp only: mu_def py_sum_def sl exact_ops)
  also have "\<dots> = Fin b" by (simp only: p b)
  finally have m2: "mu exact gray 256 = Fin b" .
  note mu = m1 m2
  show ?thesis
    by (simp add: sigma_B_def om mu exact_ops fsub_def inf_of_sign_def)
qed


lemma coherent_twoHumps: "coherent twoHumps"
  by (simp add: coherent_def twoHumps_def)

text \<open>
  C7 (as the code has it). The hill climb starts at \<open>k = 128\<close> and moves to a strictly
  better neighbour, the left one first; a comparison with not-a-number is never
  strictly better. Whenever \<open>\<sigma>_B(0)\<close> is not above \<open>\<sigma>_B(1)\<close> and \<open>\<sigma>_B(255)\<close> not above
  \<open>\<sigma>_B(254)\<close>, whatever the arithmetic, the climb returns a \<open>k\<close> in \<open>[1, 254]\<close> neither of
  whose neighbours scores strictly higher: a local maximum of \<open>\<sigma>_B\<close>, which need not be
  the exhaustive argmax. In exact arithmetic this holds for every image with at least
  one pixel: there \<open>\<sigma>_B(0)\<close> and \<open>\<sigma>_B(255)\<close> are both \<open>0 / 0\<close>, not a number.
\<close>

theorem otsuThreshold_local_maximum:
  "(\<not> fgt (sigma_B ops gray 0) (sigma_B ops gray 1)
    \<and> \<not> fgt (sigma_B ops gray 255) (sigma_B ops gray 254)
    \<longrightarrow> (\<exists>k. otsuThreshold ops gray = Inr k \<and> 1 \<le> k \<and> k \<le> 254
             \<and> \<not> fgt (sigma_B ops gray (k - 1)) (sigma_B ops gray k)
             \<and> \<not> fgt (sigma_B ops gray (k + 1)) (sigma_B ops gray k)))
   \<and> (coherent gray \<and> 0 < height gray * width gray
      \<longrightarrow> isnan (sigma_B exact gray 0) \<and> isnan (sigma_B exact gray 255)
          \<and> (\<exists>k. otsuThreshold exact gray = Inr k \<and> 1 \<le> k \<and> k \<le> 254
                \<and> \<not> fgt (sigma_B exact gray (k - 1)) (sigma_B exact gray k)
                \<and> \<not> fgt (sigma_B exact gray (k + 1)) (sigma_B exact gray k)))"
proof (intro conjI impI)
  assume "\<not> fgt (sigma_B ops gray 0) (sigma_B ops gray 1)
          \<and> \<not> fgt (sigma_B ops gray 255) (sigma_B ops gray 254)"
  then show "\<exists>k. otsuThreshold ops gray = Inr k \<and> 1 \<le> k \<and> k \<le> 254
             \<and> \<not> fgt (sigma_B ops gray (k - 1)) (sigma_B ops gray k)
             \<and> \<not> fgt (sigma_B ops gray (k + 1)) (sigma_B ops gray k)"
    by (intro otsuThreshold_returns) simp_all
next
  assume "coherent gray \<and> 0 < height gray * width gray"
  then show last: "isnan (sigma_B exact gray 255)"
    by (intro sigma_B_exact_last) simp_all
  show first: "isnan (sigma_B exact gray 0)"
    by (rule sigma_B_exact_first)
  have "\<not> fgt (sigma_B exact gray 0) (sigma_B exact gray 1)"
    using first by (cases "sigma_B exact gray 0") simp_all
  moreover have "\<not> fgt (sigma_B exact gray 255) (sigma_B exact gray 254)"
    using last by (cases "sigma_B exact gray 255") simp_all
  ultimately show "\<exists>k. otsuThreshold exact gray = Inr k \<and> 1 \<le> k \<and> k \<le> 254
             \<and> \<not> fgt (sigma_B exact gray (k - 1)) (sigma_B exact gray k)
             \<and> \<not> fgt (sigma_B exact gray (k + 1)) (sigma_B exact gray k)"
    by (rule otsuThreshold_returns)
qed

theorem otsuThreshold_local_maximum_witness:
  "coherent twoHumps \<and> 0 < height twoHumps * width twoHumps
   \<and> isnan (sigma_B exact twoHumps 0) \<and> isnan (sigma_B exact twoHumps 255)
   \<and> \<not> fgt (sigma_B exact twoHumps 0) (sigma_B exact twoHumps 1)
   \<and> \<not> fgt (sigma_B exact twoHumps 255) (sigma_B exact twoHumps 254)
   \<and> otsuThreshold exact twoHumps = Inr 128
   \<and> \<not> fgt (sigma_B exact twoHumps 127) (sigma_B exact twoHumps 128)
   \<and> \<not> fgt (sigma_B exact twoHumps 129) (sigma_B exact twoHumps 128)"
proof -
  have c: "coherent twoHumps \<and> 0 < height twoHumps * width twoHumps"
    by (simp add: coherent_twoHumps) (simp add: twoHumps_def)
  note t = otsuThreshold_local_maximum [of exact twoHumps]
  from t c have n: "isnan (sigma_B exact twoHumps 0)" "isnan (sigma_B exact twoHumps 255)"
    by blast+
  have e: "\<not> fgt (sigma_B exact twoHumps 0) (sigma_B exact twoHumps 1)"
      "\<not> fgt (sigma_B exact twoHumps 255) (sigma_B exact twoHumps 254)"
    using n(1) by (cases "sigma_B exact twoHumps 0"; simp)
      (use n(2) in \<open>cases "sigma_B exact twoHumps 255"; simp\<close>)
  from t e obtain k where k: "otsuThreshold exact twoHumps = Inr k"
      "\<not> fgt (sigma_B exact twoHumps (k - 1)) (sigma_B exact twoHumps k)"
      "\<not> fgt (sigma_B exact twoHumps (k + 1)) (sigma_B exact twoHumps k)"
    by blast
  from k(1) have "k = 128" by (simp add: otsuThreshold_twoHumps)
  with k c n e show ?thesis by simp
qed

text \<open>
  C7 as stated fails on a bimodal histogram: for 18 pixels of value 125, 18 of value 126
  and one of value 129 the climb stays at 128, where \<open>\<sigma>_B\<close> is 441/1369 as at both
  neighbours, while \<open>\<sigma>_B(126)\<close> is strictly higher.
\<close>

theorem otsuThreshold_argmax_counterexample:
  "modeCount (histogram twoHumps) = 2
   \<and> otsuThreshold exact twoHumps = Inr 128
   \<and> fgt (sigma_B exact twoHumps 126) (sigma_B exact twoHumps 128)
   \<and> \<not> isExhaustiveArgmax exact twoHumps 128"
proof -
  have "fgt (sigma_B exact twoHumps 126) (sigma_B exact twoHumps 128)"
    by (simp add: sigma_B_twoHumps)
  moreover from this have "\<not> isExhaustiveArgmax exact twoHumps 128"
    unfolding isExhaustiveArgmax_def by (auto intro!: bexI [of _ 126])
  ultimately show ?thesis
    by (simp add: modeCount_twoHumps otsuThreshold_twoHumps)
qed

section \<open>The orchestrator\<close>

lemmas evaluate_conversion =
  convertECGLeads_def andThen_def returns_def raises_def digitizeSignal_def overlayPreview_def
  scaleSignal_def padLead_def leftPadCount_def py_int_def np_mean_def mode_def countOf_def
  padLeft_def padRight_def zeroECGSignal_def verticallyScaleECGSignal_def
  ecgSignalSamplingPeriod_def py_max_def sampleVision_def twoLeads_def fsub_def inf_of_sign_def
  validSpacings_def exact_ops

lemma extractSignal_masks:
  "extractSignal maskTop = Some (Inr (Some [Fin 0]))"
  "extractSignal maskMiddle = Some (Inr (Some [Fin 1]))"
  "extractSignal maskBlank = Some (Inr None)"
  by (simp_all add: evaluate_extraction maskTop_def maskMiddle_def maskBlank_def)


lemma andThen_returns_iff:
  "andThen m f = Some (Inr r) \<longleftrightarrow> (\<exists>v. m = Some (Inr v) \<and> f v = Some (Inr r))"
  by (auto simp: andThen_def split: option.splits sum.splits)

lemma mapItems_returns_iff:
  "mapItems f xs = Some (Inr ys) \<longleftrightarrow>
     list_all2 (\<lambda>(k, a) (k', b). k' = k \<and> f k a = Some (Inr b)) xs ys"
proof (induction xs arbitrary: ys)
  case Nil
  then show ?case by (auto simp: returns_def)
next
  case (Cons x xs)
  obtain k a where x: "x = (k, a)" by (cases x)
  show ?case
    unfolding x by (auto simp: andThen_returns_iff returns_def Cons.IH list_all2_Cons1)
qed

lemma padRight_all_length:
  assumes "mapItems (\<lambda>leadId signal. Some (padRight signal (int m - int (length signal)) (Fin 0)))
             padded = Some (Inr full)"
  shows "\<forall>(k, s) \<in> set full. length s = m"
proof -
  from assms have "list_all2 (\<lambda>(k, a) (k', b). k' = k
        \<and> Some (padRight a (int m - int (length a)) (Fin 0)) = Some (Inr b)) padded full"
    by (simp add: mapItems_returns_iff)
  then have "list_all2 (\<lambda>ka kb. length (snd kb) = m) padded full"
    by (rule list_all2_mono) (auto simp: padRight_def split: if_splits)
  then have "\<forall>kb \<in> set full. length (snd kb) = m"
    by (metis (mono_tags, lifting) in_set_conv_nth list_all2_conv_all_nth)
  then show ?thesis by auto
qed

text \<open>
  C6. Whenever \<open>convertECGLeads\<close> returns the mapping of signals, all its arrays have the
  same length.
\<close>

theorem convertECGLeads_equal_lengths:
  assumes "convertECGLeads V inputImage parameters = Some (Inr (Some signals, previews))"
  shows "\<exists>n. \<forall>(leadId, signal) \<in> set signals. length signal = n"
proof -
  from assms obtain maxLength padded where
    "mapItems (\<lambda>leadId signal.
        Some (padRight signal (int maxLength - int (length signal)) (Fin 0))) padded
     = Some (Inr signals)"
    unfolding convertECGLeads_def
    by (auto simp: andThen_returns_iff returns_def Let_def split: if_splits)
  from padRight_all_length [OF this] show ?thesis by blast
qed


lemma items_keys:
  "list_all2 (\<lambda>(k, a) (k', b). k' = k \<and> P k a b) xs ys \<Longrightarrow> map fst ys = map fst xs"
  by (induction xs ys rule: list_all2_induct) auto

lemma items_nth:
  assumes "list_all2 (\<lambda>(k, a) (k', b). k' = k \<and> P k a b) xs ys" "i < length xs" "xs ! i = (k, a)"
  obtains b where "ys ! i = (k, b)" "P k a b"
proof -
  from assms(1,2) have "(\<lambda>(k, a) (k', b). k' = k \<and> P k a b) (xs ! i) (ys ! i)"
    by (rule list_all2_nthD)
  with assms(3) show ?thesis by (cases "ys ! i") (auto intro: that)
qed

lemma convertECGLeads_stages:
  assumes "convertECGLeads V inputImage parameters = Some (Inr (Some signals, previews))"
  obtains rotatedImage leadImages raw grids scaled samplingPeriod padded maxLength where
    "rotated V inputImage (rotation parameters) = Inr rotatedImage"
    "list_all2 (\<lambda>(k, lead) (k', crop). k' = k \<and>
        Some (cropped V rotatedImage
          (Rectangle (leadX lead) (leadY lead) (leadWidth lead) (leadHeight lead)))
        = Some (Inr crop)) (leads parameters) leadImages"
    "list_all2 (\<lambda>(k, crop) (k', r). k' = k \<and> digitizeSignal V crop = Some (Inr r)) leadImages raw"
    "list_all2 (\<lambda>(k, crop) (k', g). k' = k \<and> Some (digitizeGrid V crop) = Some (Inr g))
       leadImages grids"
    "list_all2 (\<lambda>(k, r) (k', s). k' = k \<and>
        scaleSignal (arithmetic V) r
          (mean V (validSpacings grids)) (voltScale parameters) = Some (Inr s)) raw scaled"
    "ecgSignalSamplingPeriod (arithmetic V) (mean V (validSpacings grids)) (timeScale parameters) 1
     = Inr samplingPeriod"
    "list_all2 (\<lambda>(k, s) (k', s'). k' = k \<and>
        padLead (arithmetic V) (leads parameters) samplingPeriod k s = Some (Inr s')) scaled padded"
    "list_all2 (\<lambda>(k, s) (k', s'). k' = k \<and>
        Some (padRight s (int maxLength - int (length s)) (Fin 0)) = Some (Inr s')) padded signals"
  using assms unfolding convertECGLeads_def
  by (auto simp: andThen_returns_iff returns_def Let_def mapItems_returns_iff split: if_splits)

lemma items_compose:
  "list_all2 (\<lambda>(k, a) (k', b). k' = k \<and> P a b) xs ys \<Longrightarrow>
   list_all2 (\<lambda>(k, b) (k', c). k' = k \<and> Q b c) ys zs \<Longrightarrow>
   list_all2 (\<lambda>(k, a) (k', c). k' = k \<and> (\<exists>b. P a b \<and> Q b c)) xs zs"
proof (induction xs ys arbitrary: zs rule: list_all2_induct)
  case Nil
  then show ?case by simp
next
  case (Cons x xs y ys)
  from Cons.prems obtain z zs' where z: "zs = z # zs'"
    "(\<lambda>(k, b) (k', c). k' = k \<and> Q b c) y z"
    "list_all2 (\<lambda>(k, b) (k', c). k' = k \<and> Q b c) ys zs'"
    by (auto simp: list_all2_Cons1)
  from Cons.hyps(1) z(2) have "(\<lambda>(k, a) (k', c). k' = k \<and> (\<exists>b. P a b \<and> Q b c)) x z"
    by (cases x; cases y; cases z) auto
  with Cons.IH [OF z(3)] z(1) show ?case by simp
qed

text \<open>
  C5 (as the code has it). In a successful digitisation, with distinct lead keys, there
  is one sampling period, computed from the mean of the grid periods that
  \<open>digitizeGrid\<close> found on the leads' crops and from the time scale, such that every
  lead's array starts with \<open>count\<close> zero samples followed by the scaled signal that
  \<open>digitizeSignal\<close> found on that lead's crop, where \<open>count\<close> is the float quotient
  \<open>startTime / samplingPeriod\<close> truncated towards zero (\<open>int\<close>), not rounded.
\<close>

theorem convertECGLeads_left_padding:
  assumes ok: "convertECGLeads V inputImage parameters = Some (Inr (Some signals, previews))"
      and keys: "distinct (map fst (leads parameters))"
  shows "\<exists>rotatedImage grids samplingPeriod.
           rotated V inputImage (rotation parameters) = Inr rotatedImage
           \<and> list_all2 (\<lambda>(leadId, lead) (leadId', grid). leadId' = leadId
                 \<and> (\<exists>crop. cropped V rotatedImage
                        (Rectangle (leadX lead) (leadY lead) (leadWidth lead) (leadHeight lead))
                        = Inr crop
                      \<and> digitizeGrid V crop = Inr grid))
               (leads parameters) grids
           \<and> ecgSignalSamplingPeriod (arithmetic V) (mean V (validSpacings grids))
                 (timeScale parameters) 1 = Inr samplingPeriod
           \<and> (\<forall>(leadId, lead) \<in> set (leads parameters).
                 \<exists>crop raw scaled q count m.
                   cropped V rotatedImage
                     (Rectangle (leadX lead) (leadY lead) (leadWidth lead) (leadHeight lead))
                     = Inr crop
                   \<and> digitizeSignal V crop = Some (Inr (Signal raw))
                   \<and> scaleSignal (arithmetic V) (Signal raw) (mean V (validSpacings grids))
                       (voltScale parameters) = Some (Inr scaled)
                   \<and> f_div (arithmetic V) (Fin (startTime lead)) samplingPeriod = Fin q
                   \<and> int count = (if 0 \<le> q then \<lfloor>q\<rfloor> else \<lceil>q\<rceil>)
                   \<and> map_of signals leadId
                       = Some (replicate count (Fin 0) @ scaled @ replicate m (Fin 0)))"
proof (rule convertECGLeads_stages [OF ok])
  fix rotatedImage leadImages raws and grids :: "(LeadId \<times> GridResult) list"
    and scaleds samplingPeriod padded maxLength
  let ?rect = "\<lambda>lead. Rectangle (leadX lead) (leadY lead) (leadWidth lead) (leadHeight lead)"
  let ?mean = "mean V (validSpacings grids)"
  assume rot: "rotated V inputImage (rotation parameters) = Inr rotatedImage"
    and crops: "list_all2 (\<lambda>(k, lead) (k', crop). k' = k \<and>
        Some (cropped V rotatedImage
          (Rectangle (leadX lead) (leadY lead) (leadWidth lead) (leadHeight lead)))
        = Some (Inr crop)) (leads parameters) leadImages"
    and sigs: "list_all2 (\<lambda>(k, crop) (k', r). k' = k \<and> digitizeSignal V crop = Some (Inr r))
        leadImages raws"
    and grd: "list_all2 (\<lambda>(k, crop) (k', g). k' = k \<and> Some (digitizeGrid V crop) = Some (Inr g))
       leadImages grids"
    and scl: "list_all2 (\<lambda>(k, r) (k', s). k' = k \<and>
        scaleSignal (arithmetic V) r (mean V (validSpacings grids)) (voltScale parameters)
        = Some (Inr s)) raws scaleds"
    and sp: "ecgSignalSamplingPeriod (arithmetic V) (mean V (validSpacings grids))
        (timeScale parameters) 1 = Inr samplingPeriod"
    and pad: "list_all2 (\<lambda>(k, s) (k', s'). k' = k \<and>
        padLead (arithmetic V) (leads parameters) samplingPeriod k s = Some (Inr s'))
        scaleds padded"
    and full: "list_all2 (\<lambda>(k, s) (k', s'). k' = k \<and>
        Some (padRight s (int maxLength - int (length s)) (Fin 0)) = Some (Inr s')) padded signals"
  have len: "length leadImages = length (leads parameters)" "length raws = length (leads parameters)"
    "length scaleds = length (leads parameters)" "length padded = length (leads parameters)"
    using list_all2_lengthD [OF crops] list_all2_lengthD [OF sigs] list_all2_lengthD [OF scl]
      list_all2_lengthD [OF pad] by simp_all
  have skeys: "map fst signals = map fst (leads parameters)"
    using items_keys [OF crops] items_keys [OF sigs] items_keys [OF scl] items_keys [OF pad]
      items_keys [OF full] by simp
  have "list_all2 (\<lambda>(k, lead) (k', g). k' = k
          \<and> (\<exists>crop. Some (cropped V rotatedImage (?rect lead)) = Some (Inr crop)
                \<and> Some (digitizeGrid V crop) = Some (Inr g)))
        (leads parameters) grids"
    using crops grd by (rule items_compose)
  then have tied: "list_all2 (\<lambda>(leadId, lead) (leadId', grid). leadId' = leadId
          \<and> (\<exists>crop. cropped V rotatedImage (?rect lead) = Inr crop
                \<and> digitizeGrid V crop = Inr grid))
        (leads parameters) grids"
    by (rule list_all2_mono) auto
  have "\<exists>crop raw scaled q count m.
          cropped V rotatedImage (?rect lead) = Inr crop
          \<and> digitizeSignal V crop = Some (Inr (Signal raw))
          \<and> scaleSignal (arithmetic V) (Signal raw) ?mean (voltScale parameters)
              = Some (Inr scaled)
          \<and> f_div (arithmetic V) (Fin (startTime lead)) samplingPeriod = Fin q
          \<and> int count = (if 0 \<le> q then \<lfloor>q\<rfloor> else \<lceil>q\<rceil>)
          \<and> map_of signals leadId = Some (replicate count (Fin 0) @ scaled @ replicate m (Fin 0))"
    if mem: "(leadId, lead) \<in> set (leads parameters)" for leadId lead
  proof -
    from mem obtain i where i: "i < length (leads parameters)" "leads parameters ! i = (leadId, lead)"
      by (auto simp: in_set_conv_nth)
    from items_nth [OF crops i] obtain crop where
      c: "leadImages ! i = (leadId, crop)"
         "Some (cropped V rotatedImage (?rect lead)) = Some (Inr crop)" by blast
    from items_nth [OF sigs _ c(1)] i len obtain r where
      r: "raws ! i = (leadId, r)" "digitizeSignal V crop = Some (Inr r)" by auto
    from items_nth [OF scl _ r(1)] i len obtain sc where
      sc: "scaleds ! i = (leadId, sc)"
          "scaleSignal (arithmetic V) r ?mean (voltScale parameters) = Some (Inr sc)"
      by auto
    from sc(2) obtain raw where raw: "r = Signal raw"
      by (cases r) (auto simp: scaleSignal_def raises_def)
    from items_nth [OF pad _ sc(1)] i len obtain pd where
      pd: "padded ! i = (leadId, pd)"
          "padLead (arithmetic V) (leads parameters) samplingPeriod leadId sc = Some (Inr pd)"
      by auto
    from items_nth [OF full _ pd(1)] i len obtain fl where
      fl: "signals ! i = (leadId, fl)"
          "Some (padRight pd (int maxLength - int (length pd)) (Fin 0)) = Some (Inr fl)" by auto
    from keys mem have "map_of (leads parameters) leadId = Some lead" by simp
    with pd(2) obtain c where
      cnt: "leftPadCount (arithmetic V) (startTime lead) samplingPeriod = Inr c"
           "padLeft sc c (Fin 0) = Inr pd"
      by (auto simp: padLead_def andThen_returns_iff)
    from cnt(2) have c0: "0 \<le> c" and pdeq: "pd = replicate (nat c) (Fin 0) @ sc"
      by (auto simp: padLeft_def split: if_splits)
    from cnt(1) obtain q where
      q: "f_div (arithmetic V) (Fin (startTime lead)) samplingPeriod = Fin q"
         "c = (if 0 \<le> q then \<lfloor>q\<rfloor> else \<lceil>q\<rceil>)"
      by (cases "f_div (arithmetic V) (Fin (startTime lead)) samplingPeriod")
         (auto simp: leftPadCount_def py_int_def)
    from fl(2) have fleq: "fl = pd @ replicate (nat (int maxLength - int (length pd))) (Fin 0)"
      by (auto simp: padRight_def split: if_splits)
    have "i < length signals" using skeys i(1) by (metis length_map)
    with fl(1) have "(leadId, fl) \<in> set signals" by (metis nth_mem)
    moreover from keys skeys have "distinct (map fst signals)" by simp
    ultimately have "map_of signals leadId = Some fl" by simp
    with q c0 sc(2) raw pdeq fleq c(2) r(2) show ?thesis
      by (intro exI [of _ crop] exI [of _ raw] exI [of _ sc] exI [of _ q] exI [of _ "nat c"]
          exI [of _ "nat (int maxLength - int (length pd))"]) simp
  qed
  then have "\<forall>(leadId, lead) \<in> set (leads parameters).
          \<exists>crop raw scaled q count m.
            cropped V rotatedImage (?rect lead) = Inr crop
            \<and> digitizeSignal V crop = Some (Inr (Signal raw))
            \<and> scaleSignal (arithmetic V) (Signal raw) ?mean (voltScale parameters)
                = Some (Inr scaled)
            \<and> f_div (arithmetic V) (Fin (startTime lead)) samplingPeriod = Fin q
            \<and> int count = (if 0 \<le> q then \<lfloor>q\<rfloor> else \<lceil>q\<rceil>)
            \<and> map_of signals leadId = Some (replicate count (Fin 0) @ scaled @ replicate m (Fin 0))"
    by (intro ballI) (simp only: split_beta, metis prod.collapse)
  with rot tied sp show ?thesis
    by (intro exI [of _ rotatedImage] exI [of _ grids] exI [of _ samplingPeriod] conjI)
qed


lemma mapItems_total:
  "\<forall>(k, a) \<in> set xs. \<exists>b. f k a = Some (Inr b) \<and> Q k a b \<Longrightarrow>
   \<exists>ys. mapItems f xs = Some (Inr ys) \<and> list_all2 (\<lambda>(k, a) (k', b). k' = k \<and> Q k a b) xs ys"
proof (induction xs)
  case Nil
  then show ?case by (simp add: returns_def)
next
  case (Cons x xs)
  obtain k a where x: "x = (k, a)" by (cases x)
  from Cons.prems x obtain b where b: "f k a = Some (Inr b)" "Q k a b" by auto
  from Cons obtain ys where
    ys: "mapItems f xs = Some (Inr ys)" "list_all2 (\<lambda>(k, a) (k', b). k' = k \<and> Q k a b) xs ys"
    by auto
  with b x show ?case by (simp add: andThen_def returns_def)
qed

lemma list_all2_right:
  "list_all2 (\<lambda>(k, a) (k', b). k' = k \<and> Q k a b) xs ys \<Longrightarrow>
   \<forall>(k, b) \<in> set ys. \<exists>a. Q k a b"
  by (induction xs ys rule: list_all2_induct) auto

text \<open>
  C1 (as the code has it). If the rotation succeeds and every lead's crop yields a
  signal and a preview but no grid period (every \<open>digitizeGrid\<close> returns a
  \<open>Failure\<close>), \<open>convertECGLeads\<close> returns the pair \<open>(None, None)\<close>: no partial results,
  and no \<open>Failure\<close> value or reason either. An empty lead map is included.
\<close>

theorem convertECGLeads_no_grid:
  assumes rot: "rotated V inputImage (rotation parameters) = Inr rotatedImage"
      and each: "\<forall>(leadId, lead) \<in> set (leads parameters).
          \<exists>crop signal preview reason.
            cropped V rotatedImage
              (Rectangle (leadX lead) (leadY lead) (leadWidth lead) (leadHeight lead)) = Inr crop
            \<and> digitizeSignal V crop = Some (Inr (Signal signal))
            \<and> overlaySignalOnImage V signal crop = Inr preview
            \<and> digitizeGrid V crop = Inr (GridFailure reason)"
  shows "convertECGLeads V inputImage parameters = Some (Inr (None, None))"
proof -
  let ?good = "\<lambda>crop. \<exists>signal preview reason.
      digitizeSignal V crop = Some (Inr (Signal signal))
      \<and> overlaySignalOnImage V signal crop = Inr preview
      \<and> digitizeGrid V crop = Inr (GridFailure reason)"
  let ?crop = "\<lambda>(leadId :: LeadId) lead.
      Some (cropped V rotatedImage
        (Rectangle (leadX lead) (leadY lead) (leadWidth lead) (leadHeight lead)))"
  from each have "\<forall>(k, lead) \<in> set (leads parameters).
      \<exists>crop. ?crop k lead = Some (Inr crop) \<and> ?good crop"
    by fastforce
  from mapItems_total [OF this] obtain leadImages where
    li: "mapItems ?crop (leads parameters) = Some (Inr leadImages)"
        "list_all2 (\<lambda>(k, lead) (k', crop). k' = k \<and> ?good crop) (leads parameters) leadImages"
    by blast
  from list_all2_right [OF li(2)] have good: "\<forall>(k, crop) \<in> set leadImages. ?good crop"
    by auto
  let ?drawn = "\<lambda>crop r. \<exists>signal preview.
      r = Signal signal \<and> overlaySignalOnImage V signal crop = Inr preview"
  from good have "\<forall>(k, crop) \<in> set leadImages.
      \<exists>r. (\<lambda>leadId. digitizeSignal V) k crop = Some (Inr r) \<and> ?drawn crop r"
    by fastforce
  from mapItems_total [OF this] obtain signals where
    sg: "mapItems (\<lambda>leadId. digitizeSignal V) leadImages = Some (Inr signals)"
        "list_all2 (\<lambda>(k, crop) (k', r). k' = k \<and> ?drawn crop r) leadImages signals"
    by blast
  let ?paired = "map (\<lambda>((leadId, colorImage), (_, signal)). (leadId, (colorImage, signal)))
                     (zip leadImages signals)"
  have "\<forall>(k, cs) \<in> set ?paired.
      \<exists>pv. (\<lambda>leadId (colorImage, signal). overlayPreview V signal colorImage) k cs
                = Some (Inr pv) \<and> True"
  proof -
    have "\<forall>(x, y) \<in> set (zip leadImages signals).
            (\<lambda>(k, crop) (k', r). k' = k \<and> ?drawn crop r) x y"
      using sg(2) by (simp add: list_all2_iff)
    then show ?thesis
      by (fastforce simp: overlayPreview_def)
  qed
  from mapItems_total [OF this] obtain previews where
    pv: "mapItems (\<lambda>leadId (colorImage, signal). overlayPreview V signal colorImage) ?paired
         = Some (Inr previews)" by blast
  from good have "\<forall>(k, crop) \<in> set leadImages.
      \<exists>g. (\<lambda>leadId colorImage. Some (digitizeGrid V colorImage)) k crop = Some (Inr g)
          \<and> (\<exists>reason. g = GridFailure reason)"
    by fastforce
  from mapItems_total [OF this] obtain grids where
    gr: "mapItems (\<lambda>leadId colorImage. Some (digitizeGrid V colorImage)) leadImages
         = Some (Inr grids)"
        "list_all2 (\<lambda>(k, crop) (k', g). k' = k \<and> (\<exists>reason. g = GridFailure reason))
           leadImages grids" by blast
  from list_all2_right [OF gr(2)] have "\<forall>(k, g) \<in> set grids. \<exists>reason. g = GridFailure reason"
    by auto
  then have "validSpacings grids = []"
    by (auto simp: validSpacings_def)
  with rot li(1) sg(1) pv gr(1) show ?thesis
    by (simp add: convertECGLeads_def andThen_def returns_def)
qed

text \<open>
  C1 as stated fails: with two leads whose signals are extracted and whose grids are not
  estimable, the value returned is the pair \<open>(None, None)\<close>, which is not a \<open>Failure\<close>
  and carries no reason.
\<close>

theorem convertECGLeads_no_grid_counterexample:
  "convertECGLeads (sampleVision (GridFailure ''Unable to estimate the frequency of the grid in either directions.'')) 0
     (twoLeads 0 1 0) = Some (Inr (None, None))"
  by (simp add: evaluate_conversion extractSignal_masks)

text \<open>
  C2 (the code misses the claim). With an estimable grid, a lead whose crop has no trace
  makes the whole call raise \<open>AttributeError\<close> (the preview is drawn from \<open>None\<close>),
  whether the other lead succeeds or not; with both leads traced the call returns both.
\<close>

theorem per_lead_failure_aborts:
  "convertECGLeads (sampleVision (Spacing (Fin 20))) 0 (twoLeads 0 2 0) = Some (Inl AttributeError)
   \<and> convertECGLeads (sampleVision (Spacing (Fin 20))) 0 (twoLeads 2 3 0) = Some (Inl AttributeError)
   \<and> convertECGLeads (sampleVision (Spacing (Fin 20))) 0 (twoLeads 0 1 0)
       = Some (Inr (Some [(Lead_I, [Fin 0]), (Lead_II, [Fin 0])], Some [(Lead_I, 0), (Lead_II, 1)]))"
  by (simp add: evaluate_conversion extractSignal_masks)


lemma sampleVision_run:
  "convertECGLeads (sampleVision (Spacing (Fin 20))) 0 (twoLeads 0 1 (8 / 100))
     = Some (Inr (Some [(Lead_I, Fin 0 # replicate 40 (Fin 0)),
                        (Lead_II, replicate 40 (Fin 0) @ [Fin 0])],
                  Some [(Lead_I, 0), (Lead_II, 1)]))"
  by (simp add: evaluate_conversion extractSignal_masks)

theorem convertECGLeads_no_grid_witness:
  "rotated (sampleVision (GridFailure ''no grid'')) 0 (rotation (twoLeads 0 1 0)) = Inr 0
   \<and> digitizeSignal (sampleVision (GridFailure ''no grid'')) 0 = Some (Inr (Signal [Fin 0]))
   \<and> digitizeSignal (sampleVision (GridFailure ''no grid'')) 1 = Some (Inr (Signal [Fin 1]))
   \<and> digitizeGrid (sampleVision (GridFailure ''no grid'')) 0 = Inr (GridFailure ''no grid'')
   \<and> digitizeGrid (sampleVision (GridFailure ''no grid'')) 1 = Inr (GridFailure ''no grid'')
   \<and> convertECGLeads (sampleVision (GridFailure ''no grid'')) 0 (twoLeads 0 1 0)
       = Some (Inr (None, None))"
proof -
  let ?V = "sampleVision (GridFailure ''no grid'')"
  have h1: "rotated ?V 0 (rotation (twoLeads 0 1 0)) = Inr 0"
    by (simp add: sampleVision_def)
  have h2: "\<forall>(leadId, lead) \<in> set (leads (twoLeads 0 1 0)).
          \<exists>crop signal preview reason.
            cropped ?V 0
              (Rectangle (leadX lead) (leadY lead) (leadWidth lead) (leadHeight lead)) = Inr crop
            \<and> digitizeSignal ?V crop = Some (Inr (Signal signal))
            \<and> overlaySignalOnImage ?V signal crop = Inr preview
            \<and> digitizeGrid ?V crop = Inr (GridFailure reason)"
    by (simp add: sampleVision_def twoLeads_def digitizeSignal_def andThen_def returns_def
        extractSignal_masks)
  have h3: "digitizeSignal ?V 0 = Some (Inr (Signal [Fin 0]))"
    "digitizeSignal ?V 1 = Some (Inr (Signal [Fin 1]))"
    "digitizeGrid ?V 0 = Inr (GridFailure ''no grid'')"
    "digitizeGrid ?V 1 = Inr (GridFailure ''no grid'')"
    by (simp_all add: sampleVision_def digitizeSignal_def andThen_def returns_def
        extractSignal_masks)
  from convertECGLeads_no_grid [OF h1 h2] h1 h3 show ?thesis by simp
qed

theorem convertECGLeads_left_padding_witness:
  "convertECGLeads (sampleVision (Spacing (Fin 20))) 0 (twoLeads 0 1 (8 / 100))
     = Some (Inr (Some [(Lead_I, Fin 0 # replicate 40 (Fin 0)),
                        (Lead_II, replicate 40 (Fin 0) @ [Fin 0])],
                  Some [(Lead_I, 0), (Lead_II, 1)]))
   \<and> distinct (map fst (leads (twoLeads 0 1 (8 / 100))))
   \<and> (\<exists>count m. int count = \<lfloor>(8 / 100) / (2 / 1000) :: real\<rfloor>
         \<and> map_of [(Lead_I, Fin 0 # replicate 40 (Fin 0)),
                    (Lead_II, replicate 40 (Fin 0) @ [Fin 0])] Lead_II
             = Some (replicate count (Fin 0) @ [Fin 0] @ replicate m (Fin 0)))"
proof -
  let ?V = "sampleVision (Spacing (Fin 20))"
  let ?P = "twoLeads 0 1 (8 / 100)"
  let ?out = "[(Lead_I, Fin 0 # replicate 40 (Fin 0)), (Lead_II, replicate 40 (Fin 0) @ [Fin 0])]"
  have h2: "distinct (map fst (leads ?P))"
    by (simp add: twoLeads_def)
  from convertECGLeads_left_padding [OF sampleVision_run h2]
  obtain rotatedImage grids samplingPeriod where
    tied: "list_all2 (\<lambda>(leadId, lead) (leadId', grid). leadId' = leadId
                 \<and> (\<exists>crop. cropped ?V rotatedImage
                        (Rectangle (leadX lead) (leadY lead) (leadWidth lead) (leadHeight lead))
                        = Inr crop
                      \<and> digitizeGrid ?V crop = Inr grid))
               (leads ?P) grids"
    and sp: "ecgSignalSamplingPeriod (arithmetic ?V) (mean ?V (validSpacings grids))
                 (timeScale ?P) 1 = Inr samplingPeriod"
    and each: "\<forall>(leadId, lead) \<in> set (leads ?P).
                 \<exists>crop raw scaled q count m.
                   cropped ?V rotatedImage
                     (Rectangle (leadX lead) (leadY lead) (leadWidth lead) (leadHeight lead))
                     = Inr crop
                   \<and> digitizeSignal ?V crop = Some (Inr (Signal raw))
                   \<and> scaleSignal (arithmetic ?V) (Signal raw) (mean ?V (validSpacings grids))
                       (voltScale ?P) = Some (Inr scaled)
                   \<and> f_div (arithmetic ?V) (Fin (startTime lead)) samplingPeriod = Fin q
                   \<and> int count = (if 0 \<le> q then \<lfloor>q\<rfloor> else \<lceil>q\<rceil>)
                   \<and> map_of ?out leadId
                       = Some (replicate count (Fin 0) @ scaled @ replicate m (Fin 0))"
    by blast
  from tied have grids: "grids = [(Lead_I, Spacing (Fin 20)), (Lead_II, Spacing (Fin 20))]"
    by (auto simp: twoLeads_def sampleVision_def list_all2_Cons1)
  from sp have period: "samplingPeriod = Fin (2 / 1000)"
    unfolding grids by (simp add: evaluate_conversion)
  from each obtain raw scaled q count m where
    second: "digitizeSignal ?V 1 = Some (Inr (Signal raw))"
      "scaleSignal (arithmetic ?V) (Signal raw) (mean ?V (validSpacings grids)) (voltScale ?P)
         = Some (Inr scaled)"
      "f_div (arithmetic ?V) (Fin (8 / 100)) samplingPeriod = Fin q"
      "int count = (if 0 \<le> q then \<lfloor>q\<rfloor> else \<lceil>q\<rceil>)"
      "map_of ?out Lead_II = Some (replicate count (Fin 0) @ scaled @ replicate m (Fin 0))"
    by (auto simp: twoLeads_def sampleVision_def)
  from second(1) have raw: "raw = [Fin 1]"
    by (simp add: evaluate_conversion extractSignal_masks)
  from second(2) have scaled: "scaled = [Fin 0]"
    unfolding grids raw by (simp add: evaluate_conversion)
  from second(3) have q: "q = (8 / 100) / (2 / 1000)"
    unfolding period by (simp add: sampleVision_def exact_ops)
  from second(4,5) have "int count = \<lfloor>(8 / 100) / (2 / 1000) :: real\<rfloor>
      \<and> map_of ?out Lead_II = Some (replicate count (Fin 0) @ [Fin 0] @ replicate m (Fin 0))"
    unfolding q scaled by simp
  with sampleVision_run h2 show ?thesis by blast
qed

text \<open>
  C5 as stated fails: with a grid of 20 pixels and 25 mm/s the sampling period is 0.002
  s; a start time of 0.0012 s gives the quotient 0.6, which rounds to 1, and the lead's
  array has no zero sample in front of its one sample.
\<close>

theorem convertECGLeads_left_padding_counterexample:
  "convertECGLeads (sampleVision (Spacing (Fin 20))) 0 (twoLeads 0 1 (12 / 10000))
     = Some (Inr (Some [(Lead_I, [Fin 0]), (Lead_II, [Fin 0])], Some [(Lead_I, 0), (Lead_II, 1)]))
   \<and> ecgSignalSamplingPeriod exact (np_mean [Fin 20, Fin 20]) 25 1 = Inr (Fin (2 / 1000))
   \<and> fdiv (Fin (12 / 10000)) (Fin (2 / 1000)) = Fin (6 / 10)
   \<and> round (6 / 10 :: real) = 1"
proof -
  have "round (6 / 10 :: real) = 1"
    by (simp add: round_def)
  then show ?thesis
    by (simp add: evaluate_conversion extractSignal_masks)
qed

theorem convertECGLeads_equal_lengths_witness:
  "convertECGLeads (sampleVision (Spacing (Fin 20))) 0 (twoLeads 0 1 (8 / 100))
     = Some (Inr (Some [(Lead_I, Fin 0 # replicate 40 (Fin 0)),
                        (Lead_II, replicate 40 (Fin 0) @ [Fin 0])],
                  Some [(Lead_I, 0), (Lead_II, 1)]))
   \<and> (\<exists>n. \<forall>(leadId, signal) \<in> set [(Lead_I, Fin 0 # replicate 40 (Fin 0)),
                                         (Lead_II, replicate 40 (Fin 0) @ [Fin 0])].
              length signal = n)"
  using convertECGLeads_equal_lengths [OF sampleVision_run] sampleVision_run by blast

subsection \<open>When the call succeeds\<close>

lemma digitizeSignal_traced:
  assumes "adaptive V crop = Inr binary" "flatten (getPointLocations binary) \<noteq> []"
  shows "\<exists>signal. digitizeSignal V crop = Some (Inr (Signal signal)) \<and> signal \<noteq> []"
proof -
  from extractSignal_ok [OF assms(2)] obtain path signal where
    "extractSignal binary = Some (Inr (Some signal))" "length signal = nat (px (hd path)) + 1"
    by blast
  with assms(1) show ?thesis
    by (auto simp: digitizeSignal_def andThen_def returns_def)
qed

lemma sum_positive:
  "\<forall>s \<in> set xs. \<exists>m > 0. s = Fin m \<Longrightarrow>
   \<exists>b. foldl fadd (Fin a) xs = Fin b \<and> a \<le> b \<and> (xs \<noteq> [] \<longrightarrow> a < b)"
proof (induction xs arbitrary: a)
  case Nil
  then show ?case by simp
next
  case (Cons x xs)
  from Cons.prems obtain m where m: "0 < m" "x = Fin m" by auto
  from Cons.prems have "\<forall>s \<in> set xs. \<exists>m > 0. s = Fin m" by simp
  from Cons.IH [OF this, of "a + m"] obtain b where
    "foldl fadd (Fin (a + m)) xs = Fin b" "a + m \<le> b" by blast
  with m show ?case by (intro exI [of _ b]) simp
qed

lemma np_mean_positive:
  assumes "\<forall>s \<in> set xs. \<exists>m > 0. s = Fin m" "xs \<noteq> []"
  shows "\<exists>m > 0. np_mean xs = Fin m"
proof -
  from sum_positive [OF assms(1), of 0] assms(2) obtain b where
    b: "foldl fadd (Fin 0) xs = Fin b" "0 < b" by auto
  from assms(2) have "0 < real (length xs)" by simp
  with b show ?thesis by (simp add: np_mean_def)
qed

lemma scaleSignal_returns:
  assumes "signal \<noteq> []" "volt \<noteq> 0"
  shows "\<exists>scaled. scaleSignal ops (Signal signal) grid volt = Some (Inr scaled)"
proof -
  from assms(1) obtain z where "mode signal = Inr z"
    by (cases signal) (auto simp: mode_def)
  with assms(2) show ?thesis
    by (simp add: scaleSignal_def zeroECGSignal_def verticallyScaleECGSignal_def andThen_def Let_def)
qed

lemma padLead_returns:
  assumes "map_of leadMap k = Some lead" "0 \<le> startTime lead" "0 < sp"
  shows "\<exists>padded. padLead exact leadMap (Fin sp) k signal = Some (Inr padded)"
proof -
  from assms(2,3) have "0 \<le> startTime lead / sp" by simp
  then have "\<not> startTime lead / sp < 0" by simp
  with assms \<open>0 \<le> startTime lead / sp\<close> show ?thesis
    by (simp add: padLead_def leftPadCount_def py_int_def padLeft_def andThen_def exact_ops)
qed

lemma foldl_max_ge: "(m :: nat) \<le> foldl max m xs \<and> (\<forall>x \<in> set xs. x \<le> foldl max m xs)"
proof (induction xs arbitrary: m)
  case Nil
  then show ?case by simp
next
  case (Cons x xs)
  from Cons [of "max m x"] show ?case by auto
qed

lemma py_max_ge:
  "xs \<noteq> [] \<Longrightarrow> \<exists>m. py_max xs = Inr m \<and> (\<forall>x \<in> set xs. x \<le> m)"
  using foldl_max_ge by (cases xs) (auto simp: py_max_def)

text \<open>
  In exact arithmetic the call does return the two mappings, one signal per lead,
  whenever the rotation succeeds, the lead map is not empty and has distinct keys, the
  scales are positive (the voltage scale non-zero), and every lead has a non-negative
  start time and a crop that yields a signal, a preview and a positive grid period.
\<close>

lemma convertECGLeads_returns:
  assumes platform: "arithmetic V = exact" "mean V = np_mean"
      and rot: "rotated V inputImage (rotation parameters) = Inr rotatedImage"
      and nonempty: "leads parameters \<noteq> []"
      and keys: "distinct (map fst (leads parameters))"
      and scales: "0 < timeScale parameters" "voltScale parameters \<noteq> 0"
      and each: "\<forall>(leadId, lead) \<in> set (leads parameters).
          0 \<le> startTime lead
          \<and> (\<exists>crop signal preview m.
                cropped V rotatedImage
                  (Rectangle (leadX lead) (leadY lead) (leadWidth lead) (leadHeight lead))
                  = Inr crop
                \<and> digitizeSignal V crop = Some (Inr (Signal signal)) \<and> signal \<noteq> []
                \<and> overlaySignalOnImage V signal crop = Inr preview
                \<and> digitizeGrid V crop = Inr (Spacing (Fin m)) \<and> 0 < m)"
  shows "\<exists>signals previews.
           convertECGLeads V inputImage parameters = Some (Inr (Some signals, Some previews))
           \<and> map fst signals = map fst (leads parameters)"
proof -
  let ?good = "\<lambda>crop. \<exists>signal preview m.
      digitizeSignal V crop = Some (Inr (Signal signal)) \<and> signal \<noteq> []
      \<and> overlaySignalOnImage V signal crop = Inr preview
      \<and> digitizeGrid V crop = Inr (Spacing (Fin m)) \<and> 0 < m"
  let ?crop = "\<lambda>(leadId :: LeadId) lead.
      Some (cropped V rotatedImage
        (Rectangle (leadX lead) (leadY lead) (leadWidth lead) (leadHeight lead)))"
  from each have "\<forall>(k, lead) \<in> set (leads parameters).
      \<exists>crop. ?crop k lead = Some (Inr crop) \<and> ?good crop"
    by fastforce
  from mapItems_total [OF this] obtain leadImages where
    li: "mapItems ?crop (leads parameters) = Some (Inr leadImages)"
        "list_all2 (\<lambda>(k, lead) (k', crop). k' = k \<and> ?good crop) (leads parameters) leadImages"
    by blast
  from list_all2_right [OF li(2)] have good: "\<forall>(k, crop) \<in> set leadImages. ?good crop"
    by auto
  have k1: "map fst leadImages = map fst (leads parameters)" by (rule items_keys [OF li(2)])
  let ?drawn = "\<lambda>crop r. \<exists>signal preview.
      r = Signal signal \<and> signal \<noteq> [] \<and> overlaySignalOnImage V signal crop = Inr preview"
  from good have "\<forall>(k, crop) \<in> set leadImages.
      \<exists>r. (\<lambda>leadId. digitizeSignal V) k crop = Some (Inr r) \<and> ?drawn crop r"
    by fastforce
  from mapItems_total [OF this] obtain signals where
    sg: "mapItems (\<lambda>leadId. digitizeSignal V) leadImages = Some (Inr signals)"
        "list_all2 (\<lambda>(k, crop) (k', r). k' = k \<and> ?drawn crop r) leadImages signals"
    by blast
  have k2: "map fst signals = map fst (leads parameters)"
    using items_keys [OF sg(2)] k1 by simp
  from list_all2_right [OF sg(2)] have traced:
    "\<forall>(k, r) \<in> set signals. \<exists>signal. r = Signal signal \<and> signal \<noteq> []"
    by fastforce
  from k2 nonempty have "signals \<noteq> []" by auto
  then obtain k0 r0 rest where "signals = (k0, r0) # rest" by (cases signals) auto
  with traced have notall: "\<not> list_all isFailure (map snd signals)" by auto
  let ?paired = "map (\<lambda>((leadId, colorImage), (_, signal)). (leadId, (colorImage, signal)))
                     (zip leadImages signals)"
  have "\<forall>(k, cs) \<in> set ?paired.
      \<exists>pv. (\<lambda>leadId (colorImage, signal). overlayPreview V signal colorImage) k cs
                = Some (Inr pv) \<and> True"
  proof -
    have "\<forall>(x, y) \<in> set (zip leadImages signals).
            (\<lambda>(k, crop) (k', r). k' = k \<and> ?drawn crop r) x y"
      using sg(2) by (simp add: list_all2_iff)
    then show ?thesis
      by (fastforce simp: overlayPreview_def)
  qed
  from mapItems_total [OF this] obtain previews where
    pv: "mapItems (\<lambda>leadId (colorImage, signal). overlayPreview V signal colorImage) ?paired
         = Some (Inr previews)" by blast
  from good have "\<forall>(k, crop) \<in> set leadImages.
      \<exists>g. (\<lambda>leadId colorImage. Some (digitizeGrid V colorImage)) k crop = Some (Inr g)
          \<and> (\<exists>m > 0. g = Spacing (Fin m))"
    by fastforce
  from mapItems_total [OF this] obtain grids where
    gr: "mapItems (\<lambda>leadId colorImage. Some (digitizeGrid V colorImage)) leadImages
         = Some (Inr grids)"
        "list_all2 (\<lambda>(k, crop) (k', g). k' = k \<and> (\<exists>m > 0. g = Spacing (Fin m)))
           leadImages grids" by blast
  from list_all2_right [OF gr(2)] have allsp: "\<forall>(k, g) \<in> set grids. \<exists>m > 0. g = Spacing (Fin m)"
    by auto
  have "map fst grids = map fst (leads parameters)" using items_keys [OF gr(2)] k1 by simp
  with nonempty have "grids \<noteq> []" by auto
  then obtain kg g0 grest where g0: "grids = (kg, g0) # grest" by (cases grids) auto
  with allsp obtain m0 where "g0 = Spacing (Fin m0)" by auto
  with g0 have spne: "validSpacings grids \<noteq> []" by (simp add: validSpacings_def)
  from allsp have "\<forall>s \<in> set (validSpacings grids). \<exists>m > 0. s = Fin m"
    by (fastforce simp: validSpacings_def)
  from np_mean_positive [OF this spne] obtain mu where
    mu: "0 < mu" "np_mean (validSpacings grids) = Fin mu" by blast
  have "\<forall>(k, r) \<in> set signals.
      \<exists>sc. (\<lambda>leadId signal. scaleSignal exact signal (Fin mu) (voltScale parameters)) k r
               = Some (Inr sc) \<and> True"
    using traced scaleSignal_returns [OF _ scales(2)] by fastforce
  from mapItems_total [OF this] obtain scaled where
    sc: "mapItems (\<lambda>leadId signal. scaleSignal exact signal (Fin mu) (voltScale parameters))
           signals = Some (Inr scaled)"
        "list_all2 (\<lambda>(k, r) (k', s). k' = k \<and> True) signals scaled" by blast
  have k3: "map fst scaled = map fst (leads parameters)"
    using items_keys [OF sc(2)] k2 by simp
  let ?sp = "1 / mu * 1 * (1 / timeScale parameters)"
  have sp: "ecgSignalSamplingPeriod exact (Fin mu) (timeScale parameters) 1 = Inr (Fin ?sp)"
      "0 < ?sp"
    using mu(1) scales(1) by (simp_all add: ecgSignalSamplingPeriod_def exact_ops)
  have "\<forall>(k, s) \<in> set scaled.
      \<exists>pd. padLead exact (leads parameters) (Fin ?sp) k s = Some (Inr pd) \<and> True"
  proof (intro ballI, clarify)
    fix k s
    assume "(k, s) \<in> set scaled"
    then have "k \<in> set (map fst (leads parameters))" using k3 by (metis fst_conv image_eqI set_map)
    then obtain lead where l: "(k, lead) \<in> set (leads parameters)" by auto
    with keys have "map_of (leads parameters) k = Some lead" by simp
    moreover from each l have "0 \<le> startTime lead" by auto
    ultimately show "\<exists>pd. padLead exact (leads parameters) (Fin ?sp) k s = Some (Inr pd) \<and> True"
      using padLead_returns [OF _ _ sp(2)] by simp
  qed
  from mapItems_total [OF this] obtain padded where
    pd: "mapItems (padLead exact (leads parameters) (Fin ?sp)) scaled = Some (Inr padded)"
        "list_all2 (\<lambda>(k, s) (k', s'). k' = k \<and> True) scaled padded" by blast
  have k4: "map fst padded = map fst (leads parameters)"
    using items_keys [OF pd(2)] k3 by simp
  with nonempty have "map (\<lambda>(leadId, s). length s) padded \<noteq> []" by auto
  from py_max_ge [OF this] obtain mx where
    mx: "py_max (map (\<lambda>(leadId, s). length s) padded) = Inr mx"
        "\<forall>x \<in> set (map (\<lambda>(leadId, s). length s) padded). x \<le> mx" by blast
  have "\<forall>(k, s) \<in> set padded.
      \<exists>fl. (\<lambda>leadId signal. Some (padRight signal (int mx - int (length signal)) (Fin 0))) k s
               = Some (Inr fl) \<and> True"
    using mx(2) by (fastforce simp: padRight_def)
  from mapItems_total [OF this] obtain full where
    fl: "mapItems (\<lambda>leadId signal. Some (padRight signal (int mx - int (length signal)) (Fin 0)))
           padded = Some (Inr full)"
        "list_all2 (\<lambda>(k, s) (k', s'). k' = k \<and> True) padded full" by blast
  have k5: "map fst full = map fst (leads parameters)"
    using items_keys [OF fl(2)] k4 by simp
  from rot li(1) sg(1) notall pv gr(1) spne mu(2) sc(1) sp(1) pd(1) mx(1) fl(1)
  have "convertECGLeads V inputImage parameters = Some (Inr (Some full, Some previews))"
    by (simp add: convertECGLeads_def andThen_def returns_def Let_def platform)
  with k5 show ?thesis by blast
qed

end
